(* ===== verification/Prelude.thy ===== *)
theory Prelude
  imports Main "HOL-Library.AList" "HOL-Library.Sublist"
begin

text \<open>
  Shared vocabulary of the FileOrginzer development: the rule collections the component
  theories fill, the names of the model's basic types, and generic facts on lists,
  association lists and sums that several components use.
\<close>

section \<open>Rule collections\<close>

named_theorems path_simps "evaluation rules of the node:path model on concrete shapes"
named_theorems fs_simps "lookup rules of the file-system model after each primitive"
named_theorems handler_simps "unfolding rules of the watcher's handlers"

section \<open>Types of the model\<close>

text \<open>
  A key of the file-system model is the list of segments of a normalised path; the
  segment \<open>''/''\<close> (which no real segment can be) marks the root of an absolute path.
\<close>

type_synonym fkey = "string list"

section \<open>Generic lemmas\<close>

subsection \<open>Sums as exceptions\<close>

text \<open>
  An operation that may throw returns \<open>Inl\<close> of the exception; \<open>case_sum\<close> chains
  such operations the way JavaScript's statement sequencing propagates a throw.
\<close>

lemma case_sum_Inr_iff:
  "(case r of Inl e \<Rightarrow> Inl e | Inr x \<Rightarrow> f x) = Inr y \<longleftrightarrow> (\<exists>x. r = Inr x \<and> f x = Inr y)"
  by (cases r) auto

lemma case_sum_Inl_iff:
  "(case r of Inl e \<Rightarrow> Inl e | Inr x \<Rightarrow> f x) = Inl e' \<longleftrightarrow>
     r = Inl e' \<or> (\<exists>x. r = Inr x \<and> f x = Inl e')"
  by (cases r) auto

subsection \<open>Association lists\<close>

lemma map_of_map_key_inj:
  assumes "inj_on f (set (map fst xs))" and "k \<in> set (map fst xs)"
  shows "map_of (map (\<lambda>(k, v). (f k, v)) xs) (f k) = map_of xs k"
  using assms
proof (induction xs)
  case Nil
  then show ?case by simp
next
  case (Cons p xs)
  obtain a v where p: "p = (a, v)" by (cases p)
  show ?case
  proof (cases "k = a")
    case True
    with p show ?thesis by simp
  next
    case False
    with Cons.prems p have fk: "f k \<noteq> f a" and k: "k \<in> set (map fst xs)"
      and inj: "inj_on f (set (map fst xs))"
      by (auto simp: inj_on_def)
    have "map_of (map (\<lambda>(k, v). (f k, v)) xs) (f k) = map_of xs k"
      using inj k by (rule Cons.IH)
    with False fk p show ?thesis by simp
  qed
qed

lemma map_of_map_key_notin:
  assumes "k' \<notin> f ` set (map fst xs)"
  shows "map_of (map (\<lambda>(k, v). (f k, v)) xs) k' = None"
  using assms by (induction xs) auto

lemma distinct_map_key_inj:
  assumes "distinct (map fst xs)" and "inj_on f (set (map fst xs))"
  shows "distinct (map fst (map (\<lambda>(k, v). (f k, v)) xs))"
proof -
  have "map fst (map (\<lambda>(k, v). (f k, v)) xs) = map f (map fst xs)"
    by (induction xs) auto
  have "distinct (map f (map fst xs))"
    using distinct_map [of f "map fst xs"] assms by blast
  then show ?thesis by (simp only: \<open>map fst (map (\<lambda>(k, v). (f k, v)) xs) = map f (map fst xs)\<close>)
qed

end
