(* ===== verification/Timestamp.thy ===== *)
theory Timestamp
  imports Prelude
begin

text \<open>
  The timestamp of every console line of \<open>src/index.js\<close>:
  \<open>format(new Date(), 'yyyy-MM-dd HH:mm:ss')\<close> of the \<open>date-fns\<close> library, modelled
  from that library's source. Each token prints one calendar field with
  \<open>addLeadingZeros(number, targetLength)\<close>: the decimal digits of the number, then a
  \<open>while\<close> loop prepending \<open>0\<close> until the target length is reached. The token
  \<open>yyyy\<close> prints the year (\<open>1 - year\<close> for years before 1). The reader
  \<open>parse_ts\<close> is the specification's view of the format \<open>[YYYY-MM-DD HH:MM:SS]\<close>
  (section 6), used to state what the program prints.
\<close>

section \<open>Calendar values\<close>

record datetime =
  dt_year :: nat
  dt_month :: nat
  dt_day :: nat
  dt_hour :: nat
  dt_minute :: nat
  dt_second :: nat

definition valid_datetime :: "datetime \<Rightarrow> bool" where
  "valid_datetime d \<longleftrightarrow> 1 \<le> dt_year d \<and> dt_year d \<le> 9999 \<and> 1 \<le> dt_month d \<and> dt_month d \<le> 12 \<and>
     1 \<le> dt_day d \<and> dt_day d \<le> 31 \<and> dt_hour d < 24 \<and> dt_minute d < 60 \<and> dt_second d < 60"

section \<open>Printing\<close>

definition digit_char :: "nat \<Rightarrow> char" where
  "digit_char n = char_of (48 + n)"

text \<open>\<open>Number.prototype.toString()\<close> of a non-negative integer.\<close>

fun decimal :: "nat \<Rightarrow> string" where
  "decimal n = (if n < 10 then [digit_char n] else decimal (n div 10) @ [digit_char (n mod 10)])"

text \<open>
  The loop of \<open>addLeadingZeros\<close>: \<open>while (output.length < targetLength) output = '0' +
  output\<close>. It is not structural; it stops because \<open>targetLength - length output\<close>
  decreases.
\<close>

function (domintros) addLeadingZeros :: "string \<Rightarrow> nat \<Rightarrow> string" where
  "addLeadingZeros output targetLength =
     (if length output < targetLength then addLeadingZeros (CHR ''0'' # output) targetLength
      else output)"
  by pat_completeness auto
termination by (relation "measure (\<lambda>(output, n). n - length output)") auto

definition format_ts :: "datetime \<Rightarrow> string" where
  "format_ts d =
     addLeadingZeros (decimal (if 0 < dt_year d then dt_year d else 1 - dt_year d)) 4 @ ''-'' @
     addLeadingZeros (decimal (dt_month d)) 2 @ ''-'' @
     addLeadingZeros (decimal (dt_day d)) 2 @ '' '' @
     addLeadingZeros (decimal (dt_hour d)) 2 @ '':'' @
     addLeadingZeros (decimal (dt_minute d)) 2 @ '':'' @
     addLeadingZeros (decimal (dt_second d)) 2"

section \<open>Reading\<close>

definition is_dec_digit :: "char \<Rightarrow> bool" where
  "is_dec_digit c \<longleftrightarrow> (48::nat) \<le> of_char c \<and> (of_char c :: nat) \<le> 57"

definition dec_value :: "string \<Rightarrow> nat" where
  "dec_value s = foldl (\<lambda>n c. 10 * n + (of_char c - 48)) 0 s"

definition read_nat :: "string \<Rightarrow> nat option" where
  "read_nat s = (if s \<noteq> [] \<and> list_all is_dec_digit s then Some (dec_value s) else None)"

definition parse_ts :: "string \<Rightarrow> datetime option" where
  "parse_ts s =
     (if length s = 19 \<and> s ! 4 = CHR ''-'' \<and> s ! 7 = CHR ''-'' \<and> s ! 10 = CHR '' '' \<and>
         s ! 13 = CHR '':'' \<and> s ! 16 = CHR '':''
      then (case (read_nat (take 4 s), read_nat (take 2 (drop 5 s)), read_nat (take 2 (drop 8 s)),
                  read_nat (take 2 (drop 11 s)), read_nat (take 2 (drop 14 s)), read_nat (drop 17 s)) of
              (Some y, Some mo, Some dd, Some h, Some mi, Some se) \<Rightarrow>
                let d = \<lparr>dt_year = y, dt_month = mo, dt_day = dd, dt_hour = h, dt_minute = mi,
                         dt_second = se\<rparr>
                in if valid_datetime d then Some d else None
            | _ \<Rightarrow> None)
      else None)"

section \<open>Lemmas\<close>

text \<open>The recursive equations unfold only on demand.\<close>

declare decimal.simps [simp del] addLeadingZeros.simps [simp del]

lemma addLeadingZeros_eq:
  "addLeadingZeros s k = replicate (k - length s) CHR ''0'' @ s"
proof (induction s k rule: addLeadingZeros.induct)
  case (1 out targetLength)
  show ?case
  proof (cases "length out < targetLength")
    case True
    then have "replicate (targetLength - length (CHR ''0'' # out)) CHR ''0'' @ CHR ''0'' # out =
               replicate (targetLength - length out) CHR ''0'' @ out"
    proof -
      from True obtain m where m: "targetLength - length out = Suc m"
        by (metis Suc_diff_Suc)
      then have "targetLength - length (CHR ''0'' # out) = m" by simp
      with m show ?thesis by (simp add: replicate_app_Cons_same)
    qed
    with 1 True show ?thesis by (subst addLeadingZeros.simps) simp
  next
    case False
    then show ?thesis by (subst addLeadingZeros.simps) simp
  qed
qed

lemma decimal_not_Nil [simp]: "decimal n \<noteq> []"
  by (subst decimal.simps) simp

lemma digit_char_of: "d < 10 \<Longrightarrow> (of_char (digit_char d) :: nat) = 48 + d"
  by (simp add: digit_char_def of_char_of)

lemma decimal_digits: "list_all is_dec_digit (decimal n)"
proof (induction n rule: decimal.induct)
  case (1 n)
  have "is_dec_digit (digit_char d)" if "d < 10" for d
    using that by (simp add: is_dec_digit_def digit_char_of)
  with 1 show ?case by (subst decimal.simps) auto
qed

lemma dec_value_snoc: "dec_value (s @ [c]) = 10 * dec_value s + (of_char c - 48)"
  by (simp add: dec_value_def)

lemma dec_value_zeros: "dec_value (replicate k CHR ''0'' @ s) = dec_value s"
  by (induction k) (simp_all add: dec_value_def)

lemma dec_value_decimal: "dec_value (decimal n) = n"
proof (induction n rule: decimal.induct)
  case (1 n)
  show ?case
  proof (cases "n < 10")
    case True
    then show ?thesis by (subst decimal.simps) (simp add: dec_value_def digit_char_of)
  next
    case False
    then have "dec_value (decimal n) = 10 * dec_value (decimal (n div 10)) + n mod 10"
      by (subst decimal.simps) (simp add: dec_value_snoc digit_char_of)
    with 1 False show ?thesis by simp
  qed
qed

lemma length_decimal: "n < 10 ^ k \<Longrightarrow> 0 < k \<Longrightarrow> length (decimal n) \<le> k"
proof (induction n arbitrary: k rule: decimal.induct)
  case (1 n)
  show ?case
  proof (cases "n < 10")
    case True
    with "1.prems" show ?thesis by (subst decimal.simps) simp
  next
    case False
    with "1.prems" obtain k' where k: "k = Suc k'" and k': "0 < k'"
      by (cases k; cases "k - 1") auto
    have "n div 10 < 10 ^ k'" using "1.prems"(1) k by (simp add: less_mult_imp_div_less mult.commute)
    with "1.IH" [OF False] k' have "length (decimal (n div 10)) \<le> k'" by blast
    with False k show ?thesis by (subst decimal.simps) simp
  qed
qed

text \<open>One printed field: its width, and the number read back from it.\<close>

lemma field_width: "n < 10 ^ k \<Longrightarrow> 0 < k \<Longrightarrow> length (addLeadingZeros (decimal n) k) = k"
  using length_decimal [of n k] by (simp add: addLeadingZeros_eq)

lemma field_read: "read_nat (addLeadingZeros (decimal n) k) = Some n"
proof -
  have "list_all is_dec_digit (replicate (k - length (decimal n)) CHR ''0'')"
    by (simp add: list_all_iff is_dec_digit_def)
  then show ?thesis
    using decimal_digits [of n]
    by (simp add: read_nat_def addLeadingZeros_eq dec_value_zeros dec_value_decimal)
qed

lemma parse_ts_fields:
  assumes "length a = 4" "length b = 2" "length c = 2" "length e = 2" "length f = 2" "length g = 2"
  shows "parse_ts (a @ ''-'' @ b @ ''-'' @ c @ '' '' @ e @ '':'' @ f @ '':'' @ g) =
           (case (read_nat a, read_nat b, read_nat c, read_nat e, read_nat f, read_nat g) of
              (Some y, Some mo, Some dd, Some h, Some mi, Some se) \<Rightarrow>
                let d = \<lparr>dt_year = y, dt_month = mo, dt_day = dd, dt_hour = h, dt_minute = mi,
                         dt_second = se\<rparr>
                in if valid_datetime d then Some d else None
            | _ \<Rightarrow> None)"
  using assms by (simp add: parse_ts_def nth_append)

text \<open>The six printed fields of a valid date, each with its width.\<close>

lemma format_ts_fields:
  assumes "valid_datetime d"
  shows "format_ts d =
           addLeadingZeros (decimal (dt_year d)) 4 @ ''-'' @ addLeadingZeros (decimal (dt_month d)) 2 @ ''-'' @
           addLeadingZeros (decimal (dt_day d)) 2 @ '' '' @ addLeadingZeros (decimal (dt_hour d)) 2 @ '':'' @
           addLeadingZeros (decimal (dt_minute d)) 2 @ '':'' @ addLeadingZeros (decimal (dt_second d)) 2"
    and "length (addLeadingZeros (decimal (dt_year d)) 4) = 4"
    and "length (addLeadingZeros (decimal (dt_month d)) 2) = 2"
    and "length (addLeadingZeros (decimal (dt_day d)) 2) = 2"
    and "length (addLeadingZeros (decimal (dt_hour d)) 2) = 2"
    and "length (addLeadingZeros (decimal (dt_minute d)) 2) = 2"
    and "length (addLeadingZeros (decimal (dt_second d)) 2) = 2"
  using assms by (simp_all add: format_ts_def valid_datetime_def field_width)

subsection \<open>The loop, the width and the reader\<close>

text \<open>
  The \<open>while\<close> loop of \<open>addLeadingZeros\<close> terminates on every input (its domain is
  everything) and prepends exactly the missing zeros.
\<close>

lemma addLeadingZeros_terminates:
  "addLeadingZeros_dom (s, k) \<and> addLeadingZeros s k = replicate (k - length s) CHR ''0'' @ s"
proof
  show "addLeadingZeros_dom (s, k)"
  proof (induction "k - length s" arbitrary: s)
    case 0
    show ?case by (rule addLeadingZeros.domintros) (use 0 in simp)
  next
    case (Suc m)
    then have "addLeadingZeros_dom (CHR ''0'' # s, k)" by simp
    then show ?case by (rule addLeadingZeros.domintros)
  qed
  show "addLeadingZeros s k = replicate (k - length s) CHR ''0'' @ s" by (rule addLeadingZeros_eq)
qed

lemma format_ts_length: "valid_datetime d \<Longrightarrow> length (format_ts d) = 19"
  using format_ts_fields by simp

lemma parse_format_ts:
  assumes "valid_datetime d"
  shows "parse_ts (format_ts d) = Some d"
proof -
  have eta: "\<lparr>dt_year = dt_year d, dt_month = dt_month d, dt_day = dt_day d, dt_hour = dt_hour d,
               dt_minute = dt_minute d, dt_second = dt_second d\<rparr> = d"
    by simp
  show ?thesis
    unfolding format_ts_fields(1) [OF assms]
    by (subst parse_ts_fields) (simp_all only: format_ts_fields(2-7) [OF assms] field_read eta assms
          prod.case option.case Let_def if_True)
qed

end
