(* ===== verification/Node_Lib.thy ===== *)
theory Node_Lib
  imports Prelude
begin

text \<open>
  The parts of the JavaScript runtime and of Node's \<open>node:path\<close> module (its POSIX
  variant) that \<open>src/index.js\<close> calls: \<open>String.prototype.toLowerCase\<close>,
  \<open>path.basename\<close>, \<open>path.extname\<close> and \<open>path.join\<close> with the \<open>normalize\<close> it ends
  with. They are library code, modelled from Node's implementation
  (\<open>lib/path.js\<close>): \<open>normalizeString\<close> is a character loop there and a loop over the
  \<open>/\<close>-separated segments here, with the same result. A JavaScript string is a list of
  UTF-16 code units; the model's \<open>char\<close> has 256 values, so it covers the code units
  below 256, on which \<open>toLowerCase\<close> is the Latin-1 rule written below.
\<close>

section \<open>Strings\<close>

definition js_lower_char :: "char \<Rightarrow> char" where
  "js_lower_char c =
     (let n = (of_char c :: nat) in
      if (65 \<le> n \<and> n \<le> 90) \<or> (192 \<le> n \<and> n \<le> 222 \<and> n \<noteq> 215)
      then char_of (n + 32) else c)"

definition toLowerCase :: "string \<Rightarrow> string" where
  "toLowerCase s = map js_lower_char s"

section \<open>node:path (POSIX)\<close>

subsection \<open>Segments\<close>

text \<open>\<open>p.split('/')\<close>: the pieces between separators, empty ones included.\<close>

fun split_path :: "string \<Rightarrow> string list" where
  "split_path [] = [[]]"
| "split_path (c # cs) =
     (if c = CHR ''/'' then [] # split_path cs
      else (case split_path cs of [] \<Rightarrow> [[c]] | s # ss \<Rightarrow> (c # s) # ss))"

fun join_segs :: "string list \<Rightarrow> string" where
  "join_segs [] = []"
| "join_segs [s] = s"
| "join_segs (s # ss) = s @ ''/'' @ join_segs ss"

text \<open>
  \<open>normalizeString(path, allowAboveRoot)\<close>: empty and \<open>.\<close> segments vanish, \<open>..\<close>
  removes the segment before it, and where there is none (or it is itself \<open>..\<close>) is kept
  only when the path may climb above its start (relative paths).
\<close>

fun norm_segs :: "bool \<Rightarrow> string list \<Rightarrow> string list \<Rightarrow> string list" where
  "norm_segs up res [] = res"
| "norm_segs up res (s # ss) =
     (if s = [] \<or> s = ''.'' then norm_segs up res ss
      else if s = ''..'' then
        (if res \<noteq> [] \<and> last res \<noteq> ''..'' then norm_segs up (butlast res) ss
         else if up then norm_segs up (res @ [''..'']) ss
         else norm_segs up res ss)
      else norm_segs up (res @ [s]) ss)"

definition is_absolute :: "string \<Rightarrow> bool" where
  "is_absolute p \<longleftrightarrow> p \<noteq> [] \<and> hd p = CHR ''/''"

definition path_normalize :: "string \<Rightarrow> string" where
  "path_normalize p =
     (if p = [] then ''.'' else
      let isAbs = is_absolute p;
          trailing = (last p = CHR ''/'');
          q = join_segs (norm_segs (\<not> isAbs) [] (split_path p))
      in if q = [] then (if isAbs then ''/'' else if trailing then ''./'' else ''.'')
         else (if isAbs then ''/'' else []) @ q @ (if trailing then ''/'' else []))"

text \<open>\<open>path.join(a, b)\<close>: the non-empty arguments joined by \<open>/\<close>, then normalised.\<close>

definition join :: "string \<Rightarrow> string \<Rightarrow> string" where
  "join a b =
     (let joined = (if a = [] then b else if b = [] then a else a @ ''/'' @ b)
      in if joined = [] then ''.'' else path_normalize joined)"

subsection \<open>Last component and extension\<close>

text \<open>\<open>path.basename(p)\<close>: trailing separators are skipped, then the last segment.\<close>

definition basename :: "string \<Rightarrow> string" where
  "basename p = rev (takeWhile (\<lambda>c. c \<noteq> CHR ''/'') (dropWhile (\<lambda>c. c = CHR ''/'') (rev p)))"

text \<open>
  \<open>path.extname(p)\<close> scans the same last segment \<open>b\<close> from its end: the extension
  runs from the last dot to the end, and is empty when there is no dot, when that dot is
  the first character of \<open>b\<close> (\<open>preDotState = 0\<close>: a dot-file), or when \<open>b\<close> is
  \<open>..\<close>. The part after the last dot is \<open>after\<close>.
\<close>

definition extname :: "string \<Rightarrow> string" where
  "extname p =
     (let b = basename p;
          after = rev (takeWhile (\<lambda>c. c \<noteq> CHR ''.'') (rev b))
      in if length after = length b then []
         else if Suc (length after) = length b then []
         else if b = ''..'' then []
         else CHR ''.'' # after)"

subsection \<open>Normal forms\<close>

text \<open>
  A plain segment is one that normalisation keeps as it is; a normal segment list is what
  \<open>normalizeString\<close> returns: some \<open>..\<close> segments (only where the path may climb)
  followed by plain ones.
\<close>

definition plain_segment :: "string \<Rightarrow> bool" where
  "plain_segment s \<longleftrightarrow> s \<noteq> [] \<and> s \<noteq> ''.'' \<and> s \<noteq> ''..'' \<and> CHR ''/'' \<notin> set s"

fun normal_segs :: "bool \<Rightarrow> string list \<Rightarrow> bool" where
  "normal_segs up [] = True"
| "normal_segs up (s # ss) =
     (if s = ''..'' then up \<and> normal_segs up ss else list_all plain_segment (s # ss))"

section \<open>Lemmas\<close>

subsection \<open>Splitting and joining segments\<close>

lemma split_path_not_Nil [simp]: "split_path p \<noteq> []"
  by (induction p) (auto split: list.splits)

lemma split_path_append_slash:
  "split_path (a @ CHR ''/'' # b) = split_path a @ split_path b"
proof (induction a)
  case Nil
  then show ?case by simp
next
  case (Cons c a)
  then show ?case by (cases "split_path a") (auto split: list.splits)
qed

lemma split_path_no_slash: "CHR ''/'' \<notin> set s \<Longrightarrow> split_path s = [s]"
  by (induction s) auto

lemma split_join_segs:
  "ss \<noteq> [] \<Longrightarrow> \<forall>s \<in> set ss. CHR ''/'' \<notin> set s \<Longrightarrow> split_path (join_segs ss) = ss"
  by (induction ss rule: join_segs.induct) (simp_all add: split_path_append_slash split_path_no_slash)

subsection \<open>Normalisation\<close>

lemma norm_segs_append:
  "norm_segs up res (xs @ ys) = norm_segs up (norm_segs up res xs) ys"
  by (induction up res xs rule: norm_segs.induct) auto

lemma norm_segs_plain:
  "plain_segment s \<Longrightarrow> norm_segs up res [s] = res @ [s]"
  by (simp add: plain_segment_def)

lemma normal_segs_appendD1: "normal_segs up (xs @ ys) \<Longrightarrow> normal_segs up xs"
  by (induction xs) (auto split: if_splits)

lemma normal_segs_appendD2: "normal_segs up (xs @ ys) \<Longrightarrow> normal_segs up ys"
proof (induction xs)
  case Nil
  then show ?case by simp
next
  case (Cons x xs)
  then show ?case
    by (cases ys) (auto simp: plain_segment_def split: if_splits)
qed

lemma normal_segs_snoc_plain:
  "normal_segs up xs \<Longrightarrow> plain_segment s \<Longrightarrow> normal_segs up (xs @ [s])"
  by (induction xs) (auto simp: plain_segment_def)

lemma normal_segs_all_dots:
  "up \<Longrightarrow> \<forall>x \<in> set xs. x = ''..'' \<Longrightarrow> normal_segs up xs"
  by (induction xs) auto

lemma normal_segs_dots_before:
  "normal_segs up (xs @ ''..'' # ys) \<Longrightarrow> up \<and> (\<forall>x \<in> set xs. x = ''..'')"
proof (induction xs)
  case Nil
  then show ?case by simp
next
  case (Cons x xs)
  show ?case
  proof (cases "x = ''..''")
    case True
    from Cons.prems True have n: "normal_segs up (xs @ ''..'' # ys)" by (metis normal_segs.simps(2) append_Cons)
    from Cons.IH [OF n] True show ?thesis by simp
  next
    case False
    with Cons.prems have "plain_segment ''..''" by (simp add: list_all_iff)
    then show ?thesis by (simp add: plain_segment_def)
  qed
qed

lemma normal_segs_last_dots:
  assumes "normal_segs up xs" and "xs \<noteq> []" and "last xs = ''..''"
  shows "\<forall>x \<in> set xs. x = ''..''"
proof -
  from assms(2) have eq: "xs = butlast xs @ [last xs]" by simp
  with assms(1,3) have "normal_segs up (butlast xs @ ''..'' # [])" by simp
  then have "\<forall>x \<in> set (butlast xs). x = ''..''"
    by (blast dest: normal_segs_dots_before)
  with assms(3) show ?thesis by (subst eq) auto
qed

lemma normal_norm_segs:
  "normal_segs up res \<Longrightarrow> \<forall>s \<in> set xs. CHR ''/'' \<notin> set s \<Longrightarrow>
   normal_segs up (norm_segs up res xs)"
proof (induction up res xs rule: norm_segs.induct)
  case (1 up res)
  then show ?case by simp
next
  case (2 up res s ss)
  from "2.prems"(2) have ss: "\<forall>s \<in> set ss. CHR ''/'' \<notin> set s" by simp
  consider (skip) "s = [] \<or> s = ''.''" | (dotdot) "s = ''..''" | (plain) "plain_segment s"
    using "2.prems"(2) by (auto simp: plain_segment_def)
  then show ?case
  proof cases
    case skip
    with "2.IH"(1) "2.prems"(1) ss show ?thesis by simp
  next
    case dotdot
    show ?thesis
    proof (cases "res \<noteq> [] \<and> last res \<noteq> ''..''")
      case pop: True
      from "2.prems"(1) pop have "normal_segs up (butlast res)"
        by (metis append_butlast_last_id normal_segs_appendD1)
      with "2.IH"(2) dotdot pop ss show ?thesis by simp
    next
      case nopop: False
      show ?thesis
      proof (cases up)
        case True
        have "\<forall>x \<in> set res. x = ''..''"
        proof (cases "res = []")
          case True
          then show ?thesis by simp
        next
          case False
          with nopop "2.prems"(1) show ?thesis by (intro normal_segs_last_dots) auto
        qed
        with True have "normal_segs up (res @ [''..''])"
          by (intro normal_segs_all_dots) auto
        with "2.IH"(3) dotdot nopop True ss show ?thesis by auto
      next
        case False
        with "2.IH"(4) "2.prems"(1) dotdot nopop ss show ?thesis by auto
      qed
    qed
  next
    case plain
    then have "s \<noteq> [] \<and> s \<noteq> ''.''" and "s \<noteq> ''..''" by (simp_all add: plain_segment_def)
    moreover from "2.prems"(1) plain have "normal_segs up (res @ [s])"
      by (rule normal_segs_snoc_plain)
    ultimately show ?thesis using "2.IH"(5) ss by simp
  qed
qed

lemma norm_segs_normal_id:
  "normal_segs up (res @ ss) \<Longrightarrow> norm_segs up res ss = res @ ss"
proof (induction ss arbitrary: res)
  case Nil
  then show ?case by simp
next
  case (Cons s ss)
  show ?case
  proof (cases "s = ''..''")
    case True
    with Cons.prems have "up \<and> (\<forall>x \<in> set res. x = ''..'')"
      by (blast dest: normal_segs_dots_before)
    then have "\<not> (res \<noteq> [] \<and> last res \<noteq> ''..'')" and "up"
      by (metis last_in_set, blast)
    moreover from Cons.prems True have "norm_segs up (res @ [s]) ss = (res @ [s]) @ ss"
      by (intro Cons.IH) simp
    ultimately show ?thesis using True by auto
  next
    case False
    from Cons.prems have "normal_segs up (s # ss)"
      by (blast dest: normal_segs_appendD2)
    with False have "plain_segment s" by (simp add: list_all_iff)
    moreover from Cons.prems have "norm_segs up (res @ [s]) ss = (res @ [s]) @ ss"
      by (intro Cons.IH) simp
    ultimately show ?thesis by (simp add: plain_segment_def)
  qed
qed

lemma split_path_segments: "s \<in> set (split_path p) \<Longrightarrow> CHR ''/'' \<notin> set s"
proof (induction p arbitrary: s)
  case Nil
  then show ?case by simp
next
  case (Cons c p)
  then show ?case by (cases "split_path p") (auto split: if_splits)
qed

lemma normal_segs_segments:
  "normal_segs up ss \<Longrightarrow> s \<in> set ss \<Longrightarrow> s \<noteq> [] \<and> CHR ''/'' \<notin> set s"
  by (induction ss) (auto simp: plain_segment_def list_all_iff split: if_splits)

lemma join_segs_Nil_iff: "\<forall>s \<in> set ss. s \<noteq> [] \<Longrightarrow> join_segs ss = [] \<longleftrightarrow> ss = []"
  by (induction ss rule: join_segs.induct) auto

lemma hd_join_segs: "ss \<noteq> [] \<Longrightarrow> hd ss \<noteq> [] \<Longrightarrow> hd (join_segs ss) = hd (hd ss)"
  by (induction ss rule: join_segs.induct) auto

subsection \<open>Normalising keeps the segments\<close>

lemma normal_norm_split:
  "normal_segs up (norm_segs up [] (split_path p))"
  by (rule normal_norm_segs) (auto dest: split_path_segments)

lemma normalize_unfold:
  assumes "p \<noteq> []"
  shows "path_normalize p =
     (let ns = norm_segs (\<not> is_absolute p) [] (split_path p) in
      if ns = [] then (if is_absolute p then ''/'' else if last p = CHR ''/'' then ''./'' else ''.'')
      else (if is_absolute p then ''/'' else []) @ join_segs ns @ (if last p = CHR ''/'' then ''/'' else []))"
proof -
  have "\<forall>s \<in> set (norm_segs (\<not> is_absolute p) [] (split_path p)). s \<noteq> []"
    using normal_norm_split normal_segs_segments by blast
  with assms show ?thesis by (simp add: path_normalize_def Let_def join_segs_Nil_iff)
qed

lemma normalize_is_absolute: "is_absolute (path_normalize p) = is_absolute p"
proof (cases "p = []")
  case True
  then show ?thesis by (simp add: path_normalize_def is_absolute_def)
next
  case False
  define a where "a = is_absolute p"
  define ns where "ns = norm_segs (\<not> a) [] (split_path p)"
  have segs: "\<forall>s \<in> set ns. s \<noteq> [] \<and> CHR ''/'' \<notin> set s"
    using normal_norm_split normal_segs_segments unfolding ns_def by blast
  have nrm: "path_normalize p =
      (if ns = [] then (if a then ''/'' else if last p = CHR ''/'' then ''./'' else ''.'')
       else (if a then ''/'' else []) @ join_segs ns @ (if last p = CHR ''/'' then ''/'' else []))"
    using False by (simp add: normalize_unfold a_def ns_def Let_def)
  have q: "join_segs ns \<noteq> [] \<and> hd (join_segs ns) \<noteq> CHR ''/''" if "ns \<noteq> []"
  proof -
    from that segs have hd_ns: "hd ns \<noteq> []" and "CHR ''/'' \<notin> set (hd ns)" by auto
    then have "hd (hd ns) \<noteq> CHR ''/''" using hd_in_set by metis
    with that segs hd_ns show ?thesis by (simp add: join_segs_Nil_iff hd_join_segs)
  qed
  have "is_absolute (path_normalize p) = a"
  proof (cases "ns = []")
    case True
    then show ?thesis by (simp add: nrm is_absolute_def)
  next
    case False
    with q show ?thesis by (simp add: nrm is_absolute_def)
  qed
  then show ?thesis by (simp add: a_def)
qed

lemma normalize_segments:
  "norm_segs (\<not> is_absolute p) [] (split_path (path_normalize p)) =
   norm_segs (\<not> is_absolute p) [] (split_path p)"
proof (cases "p = []")
  case True
  then show ?thesis by (simp add: path_normalize_def is_absolute_def)
next
  case False
  define up where "up = (\<not> is_absolute p)"
  define ns where "ns = norm_segs up [] (split_path p)"
  have normal: "normal_segs up ns"
    unfolding ns_def by (rule normal_norm_split)
  then have segs: "\<forall>s \<in> set ns. s \<noteq> [] \<and> CHR ''/'' \<notin> set s"
    using normal_segs_segments by blast
  have nrm: "path_normalize p =
      (if ns = [] then (if \<not> up then ''/'' else if last p = CHR ''/'' then ''./'' else ''.'')
       else (if \<not> up then ''/'' else []) @ join_segs ns @ (if last p = CHR ''/'' then ''/'' else []))"
    using False by (simp add: normalize_unfold up_def ns_def Let_def)
  have split_q: "ns \<noteq> [] \<Longrightarrow> split_path (join_segs ns) = ns"
    using segs by (intro split_join_segs) auto
  have "norm_segs up [] ns = ns"
    using norm_segs_normal_id [of up "[]" ns] normal by simp
  then have core: "up \<Longrightarrow> norm_segs True [] ns = ns" "\<not> up \<Longrightarrow> norm_segs False [] ns = ns"
    by simp_all
  have pre: "split_path (''/'' @ x) = [] # split_path x" for x
    using split_path_append_slash [of "[]" x] by simp
  have post: "split_path (x @ ''/'') = split_path x @ [[]]" for x
    using split_path_append_slash [of x "[]"] by simp
  have "norm_segs up [] (split_path (path_normalize p)) = ns"
  proof (cases "ns = []")
    case True
    then show ?thesis by (simp add: nrm)
  next
    case False
    then show ?thesis
      by (simp add: nrm pre post split_q norm_segs_append core)
  qed
  then show ?thesis by (simp add: up_def ns_def)
qed

subsection \<open>Base names and extensions\<close>

lemma basename_no_slash: "CHR ''/'' \<notin> set (basename p)"
  by (auto simp: basename_def dest: set_takeWhileD)

lemma extname_plain_basename:
  assumes "extname p \<noteq> []"
  shows "plain_segment (basename p)" and "CHR ''.'' \<in> set (basename p)"
proof -
  let ?b = "basename p"
  let ?after = "rev (takeWhile (\<lambda>c. c \<noteq> CHR ''.'') (rev ?b))"
  from assms have l1: "length ?after \<noteq> length ?b" and l2: "Suc (length ?after) \<noteq> length ?b"
    and dd: "?b \<noteq> ''..''"
    by (simp_all add: extname_def Let_def split: if_splits)
  show "CHR ''.'' \<in> set ?b"
  proof (rule ccontr)
    assume "CHR ''.'' \<notin> set ?b"
    then have "takeWhile (\<lambda>c. c \<noteq> CHR ''.'') (rev ?b) = rev ?b" by (auto simp: takeWhile_eq_all_conv)
    with l1 show False by simp
  qed
  then have "?b \<noteq> []" by auto
  moreover have "?b \<noteq> ''.''"
  proof
    assume "?b = ''.''"
    with l2 show False by simp
  qed
  ultimately show "plain_segment ?b"
    using dd basename_no_slash by (simp add: plain_segment_def)
qed


lemma join_segs_snoc:
  "join_segs (xs @ [n]) = (if xs = [] then n else join_segs xs @ ''/'' @ n)"
  by (induction xs rule: join_segs.induct) simp_all

lemma basename_append_seg:
  assumes "CHR ''/'' \<notin> set n" and "n \<noteq> []" and "q = [] \<or> last q = CHR ''/''"
  shows "basename (q @ n) = n"
proof -
  have hd: "hd (rev n) \<noteq> CHR ''/''" using assms(1,2) by (metis hd_in_set rev_is_Nil_conv set_rev)
  then have "dropWhile (\<lambda>c. c = CHR ''/'') (rev n @ rev q) = rev n @ rev q"
    using assms(2) by (cases "rev n") auto
  moreover have "takeWhile (\<lambda>c. c \<noteq> CHR ''/'') (rev n @ rev q) = rev n"
  proof -
    have tw: "takeWhile (\<lambda>c. c \<noteq> CHR ''/'') (rev n @ zs) = rev n @ takeWhile (\<lambda>c. c \<noteq> CHR ''/'') zs"
      for zs using assms(1) by (intro takeWhile_append2) auto
    show ?thesis using assms(1,3) by (cases q rule: rev_cases) (auto simp: tw takeWhile_eq_all_conv)
  qed
  ultimately show ?thesis by (simp add: basename_def)
qed

lemma basename_join:
  assumes "a \<noteq> []" and "plain_segment b"
  shows "basename (join a b) = b"
proof -
  from assms(2) have b: "b \<noteq> []" and nb: "CHR ''/'' \<notin> set b" by (simp_all add: plain_segment_def)
  let ?p = "a @ CHR ''/'' # b"
  define ns where "ns = norm_segs (\<not> is_absolute ?p) [] (split_path a)"
  have split_b: "split_path b = [b]" using nb by (rule split_path_no_slash)
  have segs: "norm_segs (\<not> is_absolute ?p) [] (split_path ?p) = ns @ [b]"
    unfolding ns_def using split_path_append_slash [of a b]
    by (simp only: split_b norm_segs_append norm_segs_plain [OF assms(2)])
  have "last b \<in> set b" using b by (rule last_in_set)
  moreover have "last ?p = last b" using b by simp
  ultimately have last_p: "last ?p \<noteq> CHR ''/''" using nb by metis
  have "join a b = path_normalize ?p" using assms(1) b by (simp add: join_def)
  also have "\<dots> = (if is_absolute ?p then ''/'' else []) @ join_segs (ns @ [b])"
    using last_p by (simp add: normalize_unfold segs Let_def)
  finally have j: "join a b = (if is_absolute ?p then ''/'' else []) @ join_segs (ns @ [b])" .
  show ?thesis
  proof (cases "ns = []")
    case True
    then show ?thesis using b nb by (simp add: j join_segs_snoc basename_append_seg)
  next
    case False
    then show ?thesis using b nb
      by (simp add: j join_segs_snoc basename_append_seg [where q = "_ @ _ @ ''/''", simplified])
  qed
qed

lemma extname_same_basename: "basename q = basename p \<Longrightarrow> extname q = extname p"
  by (simp add: extname_def)

end
