(* ===== verification/Classifier.thy ===== *)
theory Classifier
  imports Node_Lib
begin

text \<open>
  The classifier of \<open>src/index.js\<close> (\<open>getFolderNameBasedOnExtension\<close>, lines 18--35):
  four fixed extension lists, tested in the order video, audio, image, doc on the
  lower-cased extension, with \<open>null\<close> (here \<open>None\<close>) for every other extension. Beside it
  stands the specification's view: a \<open>category\<close> datatype and one static extension table,
  which the code refines.
\<close>

section \<open>The code\<close>

definition imageExtensions :: "string list" where
  "imageExtensions = [''jpg'', ''jpeg'', ''png'', ''gif'', ''bmp'']"

definition docExtensions :: "string list" where
  "docExtensions = [''pdf'', ''doc'', ''docx'', ''txt'', ''ppt'', ''pptx'']"

definition videoExtensions :: "string list" where
  "videoExtensions = [''mp4'', ''avi'', ''mkv'', ''mov'']"

definition audioExtensions :: "string list" where
  "audioExtensions = [''mp3'', ''wav'', ''aac'', ''flac'']"

definition getFolderNameBasedOnExtension :: "string \<Rightarrow> string option" where
  "getFolderNameBasedOnExtension fileExtension =
     (if toLowerCase fileExtension \<in> set videoExtensions then Some ''video''
      else if toLowerCase fileExtension \<in> set audioExtensions then Some ''audio''
      else if toLowerCase fileExtension \<in> set imageExtensions then Some ''image''
      else if toLowerCase fileExtension \<in> set docExtensions then Some ''doc''
      else None)"

lemmas extension_lists =
  imageExtensions_def docExtensions_def videoExtensions_def audioExtensions_def

section \<open>The specification's classifier\<close>

text \<open>
  The specification's \<open>Category\<close> without its \<open>unclassified\<close> value (which is
  \<open>None\<close>), the folder each category is filed under, and the \<open>ExtensionTable\<close>: one
  entry per lower-case extension.
\<close>

datatype category = Image | Doc | Video | Audio

primrec category_folder :: "category \<Rightarrow> string" where
  "category_folder Image = ''image''"
| "category_folder Doc = ''doc''"
| "category_folder Video = ''video''"
| "category_folder Audio = ''audio''"

definition extension_table :: "(string \<times> category) list" where
  "extension_table =
     map (\<lambda>e. (e, Image)) imageExtensions @ map (\<lambda>e. (e, Doc)) docExtensions @
     map (\<lambda>e. (e, Video)) videoExtensions @ map (\<lambda>e. (e, Audio)) audioExtensions"

definition classify :: "string \<Rightarrow> category option" where
  "classify e = map_of extension_table (toLowerCase e)"

text \<open>Upper-casing of ASCII letters, the \<open>upper(E)\<close> of the specification's tests.\<close>

definition ascii_upper_char :: "char \<Rightarrow> char" where
  "ascii_upper_char c =
     (let n = (of_char c :: nat) in if 97 \<le> n \<and> n \<le> 122 then char_of (n - 32) else c)"

section \<open>Lemmas\<close>

lemma map_of_map_const:
  "map_of (map (\<lambda>e. (e, v)) xs) k = (if k \<in> set xs then Some v else None)"
  by (induction xs) auto

lemma js_lower_ascii_upper: "js_lower_char (ascii_upper_char c) = js_lower_char c"
proof -
  define n where "n = (of_char c :: nat)"
  show ?thesis
  proof (cases "97 \<le> n \<and> n \<le> 122")
    case True
    then have up: "ascii_upper_char c = char_of (n - 32)"
      by (simp add: ascii_upper_char_def n_def)
    from True have "n - 32 < 256" and rng: "65 \<le> n - 32 \<and> n - 32 \<le> 90"
      and bk: "n - 32 + 32 = n"
      by arith+
    then have "of_char (char_of (n - 32) :: char) = (n - 32 :: nat)"
      by (simp add: of_char_of)
    with rng bk have "js_lower_char (char_of (n - 32)) = char_of n"
      unfolding js_lower_char_def Let_def by presburger
    moreover from True have "js_lower_char c = c"
      by (simp add: js_lower_char_def n_def [symmetric])
    moreover have "char_of n = c" by (simp add: n_def)
    ultimately show ?thesis by (simp add: up)
  next
    case False
    then show ?thesis by (auto simp: ascii_upper_char_def Let_def n_def [symmetric])
  qed
qed

lemma toLowerCase_ascii_upper: "toLowerCase (map ascii_upper_char e) = toLowerCase e"
  by (simp add: toLowerCase_def js_lower_ascii_upper)

lemma getFolderNameBasedOnExtension_Nil: "getFolderNameBasedOnExtension [] = None"
  by (simp add: getFolderNameBasedOnExtension_def toLowerCase_def extension_lists)

lemma getFolderNameBasedOnExtension_folder:
  "getFolderNameBasedOnExtension e = Some f \<Longrightarrow> f \<in> {''video'', ''audio'', ''image'', ''doc''}"
  by (simp add: getFolderNameBasedOnExtension_def split: if_splits)

lemma folder_name_plain:
  "f \<in> {''video'', ''audio'', ''image'', ''doc''} \<Longrightarrow> plain_segment f \<and> CHR ''.'' \<notin> set f"
  by (auto simp: plain_segment_def)

lemma extension_table_lower: "(k, c) \<in> set extension_table \<Longrightarrow> toLowerCase k = k"
  by (auto simp: extension_table_def extension_lists toLowerCase_def js_lower_char_def)

lemma extension_table_distinct: "distinct (map fst extension_table)"
  by (simp add: extension_table_def extension_lists)

lemma getFolderNameBasedOnExtension_classify:
  "getFolderNameBasedOnExtension e = map_option category_folder (classify e)"
  by (simp add: getFolderNameBasedOnExtension_def classify_def extension_table_def
                map_of_map_const map_of_append extension_lists split: option.splits)

lemma getFolderNameBasedOnExtension_ascii_upper:
  "getFolderNameBasedOnExtension (map ascii_upper_char e) = getFolderNameBasedOnExtension e"
  by (simp add: getFolderNameBasedOnExtension_def toLowerCase_ascii_upper)

section \<open>Properties\<close>

text \<open>
  C6. The classifier refines the specification's extension table: the folder the code
  returns is the folder of the category the table gives to the lower-cased extension, and
  \<open>null\<close> exactly where the table has no entry. The order of the code's four tests does
  not matter because the four lists are disjoint.
\<close>

theorem getFolderNameBasedOnExtension_refines_classify:
  "getFolderNameBasedOnExtension e = map_option category_folder (classify e)"
  by (rule getFolderNameBasedOnExtension_classify)

text \<open>
  C7. Classification ignores case: upper-casing the ASCII letters of an extension never
  changes the folder (the code lower-cases before it compares).
\<close>

theorem getFolderNameBasedOnExtension_case_insensitive:
  "getFolderNameBasedOnExtension (map ascii_upper_char e) = getFolderNameBasedOnExtension e"
  by (simp add: getFolderNameBasedOnExtension_def toLowerCase_ascii_upper)

text \<open>
  C8. Every extension of the four documented groups, in lower case or with its letters
  upper-cased, is filed under the folder of its documented category.
\<close>

theorem getFolderNameBasedOnExtension_documented:
  assumes "(e, c) \<in> set extension_table"
  shows "getFolderNameBasedOnExtension e = Some (category_folder c) \<and>
         getFolderNameBasedOnExtension (map ascii_upper_char e) = Some (category_folder c)"
proof -
  from assms have "map_of extension_table e = Some c"
    by (rule map_of_is_SomeI [OF extension_table_distinct])
  with extension_table_lower [OF assms] have "classify e = Some c"
    by (simp add: classify_def)
  then have "getFolderNameBasedOnExtension e = Some (category_folder c)"
    by (simp add: getFolderNameBasedOnExtension_classify)
  then show ?thesis by (simp add: getFolderNameBasedOnExtension_ascii_upper)
qed

theorem getFolderNameBasedOnExtension_documented_witness:
  "getFolderNameBasedOnExtension ''pdf'' = Some ''doc'' \<and>
   getFolderNameBasedOnExtension (map ascii_upper_char ''pdf'') = Some ''doc''"
proof -
  have "(''pdf'', Doc) \<in> set extension_table" by (simp add: extension_table_def extension_lists)
  from getFolderNameBasedOnExtension_documented [OF this] show ?thesis by simp
qed


end
