(* ===== verification/File_System.thy ===== *)
theory File_System
  imports Node_Lib
begin

text \<open>
  The file system as \<open>src/index.js\<close> sees it through \<open>node:fs\<close>: \<open>existsSync\<close>,
  \<open>mkdirSync(p, {recursive: true})\<close>, \<open>renameSync\<close> and \<open>readdirSync\<close>. These are
  external primitives (the specification's "filesystem primitives", section 6), modelled
  from their POSIX behaviour: a tree of files and directories stored as an association
  list from keys (the segments of a normalised path) to nodes. A directory records whether
  it is writable; a file records an identifier of its contents, so that a lost file can be
  told apart from a moved one. Paths are resolved lexically (no symbolic links); a
  relative path is resolved under the key \<open>[]\<close> (the working directory), an absolute one
  under \<open>[''/'']\<close>. A failing call returns \<open>Inl\<close> of its error code, which is what
  Node throws.
\<close>

section \<open>State and errors\<close>

datatype node = File nat | Dir bool

type_synonym fsys = "(fkey \<times> node) list"

datatype fs_error = ENOENT | ENOTDIR | EACCES | EEXIST | EISDIR | ENOTEMPTY | EINVAL | EBUSY

text \<open>The \<open>code\<close> of the error Node throws, as its message starts.\<close>

primrec error_code :: "fs_error \<Rightarrow> string" where
  "error_code ENOENT = ''ENOENT''"
| "error_code ENOTDIR = ''ENOTDIR''"
| "error_code EACCES = ''EACCES''"
| "error_code EEXIST = ''EEXIST''"
| "error_code EISDIR = ''EISDIR''"
| "error_code ENOTEMPTY = ''ENOTEMPTY''"
| "error_code EINVAL = ''EINVAL''"
| "error_code EBUSY = ''EBUSY''"

primrec is_dir :: "node \<Rightarrow> bool" where
  "is_dir (File c) = False"
| "is_dir (Dir w) = True"

section \<open>Paths as keys\<close>

definition path_key :: "string \<Rightarrow> fkey" where
  "path_key p =
     (if is_absolute p then ''/'' # norm_segs False [] (split_path p)
      else norm_segs True [] (split_path p))"

definition is_root_key :: "fkey \<Rightarrow> bool" where
  "is_root_key k \<longleftrightarrow> k = [] \<or> k = [''/'']"

text \<open>The directory a recursive \<open>mkdir\<close> starts from, and the segments below it.\<close>

definition key_start :: "fkey \<Rightarrow> fkey \<times> string list" where
  "key_start k = (case k of s # ss \<Rightarrow> if s = ''/'' then ([''/''], ss) else ([], k) | [] \<Rightarrow> ([], []))"

definition children :: "fsys \<Rightarrow> fkey \<Rightarrow> string list" where
  "children fs k =
     map (\<lambda>(k', n). last k') (filter (\<lambda>(k', n). \<not> is_root_key k' \<and> butlast k' = k) fs)"

definition writable_dir :: "fsys \<Rightarrow> fkey \<Rightarrow> bool" where
  "writable_dir fs k \<longleftrightarrow> map_of fs k = Some (Dir True)"

section \<open>The primitives\<close>

definition existsSync :: "fsys \<Rightarrow> string \<Rightarrow> bool" where
  "existsSync fs p \<longleftrightarrow> map_of fs (path_key p) \<noteq> None"

text \<open>
  \<open>mkdirSync(p, {recursive: true})\<close>: every missing directory on the way is created in a
  writable parent; an existing directory is no error, an existing file is \<open>EEXIST\<close> at
  the end of the path and \<open>ENOTDIR\<close> on the way.
\<close>

fun mkdirp_from :: "fsys \<Rightarrow> fkey \<Rightarrow> string list \<Rightarrow> fs_error + fsys" where
  "mkdirp_from fs cur [] = Inr fs"
| "mkdirp_from fs cur (s # ss) =
     (let k = cur @ [s] in
      case map_of fs k of
        Some (Dir w) \<Rightarrow> mkdirp_from fs k ss
      | Some (File c) \<Rightarrow> Inl (if ss = [] then EEXIST else ENOTDIR)
      | None \<Rightarrow>
          (case map_of fs cur of
             Some (Dir True) \<Rightarrow> mkdirp_from (AList.update k (Dir True) fs) k ss
           | Some (Dir False) \<Rightarrow> Inl EACCES
           | Some (File c) \<Rightarrow> Inl ENOTDIR
           | None \<Rightarrow> Inl ENOENT))"

definition mkdirSync_recursive :: "fsys \<Rightarrow> string \<Rightarrow> fs_error + fsys" where
  "mkdirSync_recursive fs p = (case key_start (path_key p) of (start, ss) \<Rightarrow> mkdirp_from fs start ss)"

text \<open>
  \<open>renameSync(src, dst)\<close>, as \<open>rename(2)\<close>: the same path is a no-op; otherwise both
  parents must be writable, a directory may not move below itself, a file may replace a
  file (the old one is lost), a directory may replace an empty directory, and the moved
  entry takes everything below it along.
\<close>

definition move_key :: "fkey \<Rightarrow> fkey \<Rightarrow> fkey \<Rightarrow> fkey" where
  "move_key s d k = (if prefix s k then d @ drop (length s) k else k)"

definition rename_entries :: "fkey \<Rightarrow> fkey \<Rightarrow> fsys \<Rightarrow> fsys" where
  "rename_entries s d fs = map (\<lambda>(k, n). (move_key s d k, n)) (AList.delete d fs)"

definition renameSync :: "fsys \<Rightarrow> string \<Rightarrow> string \<Rightarrow> fs_error + fsys" where
  "renameSync fs src dst =
     (let s = path_key src; d = path_key dst in
      case map_of fs s of
        None \<Rightarrow> Inl ENOENT
      | Some n \<Rightarrow>
          if is_root_key s \<or> is_root_key d then Inl EBUSY
          else (case map_of fs (butlast d) of
            None \<Rightarrow> Inl ENOENT
          | Some (File c) \<Rightarrow> Inl ENOTDIR
          | Some (Dir w) \<Rightarrow>
              if s = d then Inr fs
              else if \<not> w \<or> \<not> writable_dir fs (butlast s) then Inl EACCES
              else if prefix s d then Inl EINVAL
              else (case (n, map_of fs d) of
                      (File c, Some (Dir w')) \<Rightarrow> Inl EISDIR
                    | (Dir w, Some (File c)) \<Rightarrow> Inl ENOTDIR
                    | (Dir w, Some (Dir w')) \<Rightarrow>
                        if children fs d \<noteq> [] then Inl ENOTEMPTY else Inr (rename_entries s d fs)
                    | _ \<Rightarrow> Inr (rename_entries s d fs))))"

definition readdirSync :: "fsys \<Rightarrow> string \<Rightarrow> fs_error + string list" where
  "readdirSync fs p =
     (let k = path_key p in
      case map_of fs k of
        None \<Rightarrow> Inl ENOENT
      | Some (File c) \<Rightarrow> Inl ENOTDIR
      | Some (Dir w) \<Rightarrow> Inr (children fs k))"

text \<open>
  Not called by the program: a user or another program writing a file
  (\<open>writeFileSync(p, data)\<close>), the event the watcher reacts to. The file is created
  or overwritten in a writable parent directory; \<open>c\<close> stands for its content.
\<close>

definition writeFileSync :: "fsys \<Rightarrow> string \<Rightarrow> nat \<Rightarrow> fs_error + fsys" where
  "writeFileSync fs p c =
     (let k = path_key p in
      if is_root_key k then Inl EISDIR
      else (case map_of fs (butlast k) of
        None \<Rightarrow> Inl ENOENT
      | Some (File c') \<Rightarrow> Inl ENOTDIR
      | Some (Dir w) \<Rightarrow>
          (case map_of fs k of
             Some (Dir w') \<Rightarrow> Inl EISDIR
           | _ \<Rightarrow> if w then Inr (AList.update k (File c) fs) else Inl EACCES)))"

section \<open>Well-formed trees\<close>

text \<open>
  Keys are unique, the two roots are directories, and every other entry lies in a
  directory of the tree.
\<close>

definition fs_wf :: "fsys \<Rightarrow> bool" where
  "fs_wf fs \<longleftrightarrow> distinct (map fst fs) \<and>
     list_all (\<lambda>(k, n). if is_root_key k then is_dir n
                        else case map_of fs (butlast k) of Some n' \<Rightarrow> is_dir n' | None \<Rightarrow> False) fs"

section \<open>Lemmas\<close>

subsection \<open>Keys of joined paths\<close>

lemma path_key_normalize [simp]: "path_key (path_normalize p) = path_key p"
  using normalize_segments [of p] normalize_is_absolute [of p]
  by (cases "is_absolute p") (simp_all add: path_key_def)

lemma is_absolute_append: "a \<noteq> [] \<Longrightarrow> is_absolute (a @ b) = is_absolute a"
  by (simp add: is_absolute_def)

lemma path_key_join:
  assumes "a \<noteq> []" and "plain_segment b"
  shows "path_key (join a b) = path_key a @ [b]"
proof -
  from assms(2) have b: "b \<noteq> []" and "CHR ''/'' \<notin> set b"
    by (simp_all add: plain_segment_def)
  then have split_b: "split_path b = [b]" by (simp add: split_path_no_slash)
  from assms(1) b have "join a b = path_normalize (a @ CHR ''/'' # b)"
    by (simp add: join_def)
  then have "path_key (join a b) = path_key (a @ CHR ''/'' # b)" by simp
  also have "\<dots> = path_key a @ [b]"
  proof -
    have "norm_segs u [] (split_path a @ [b]) = norm_segs u [] (split_path a) @ [b]" for u
      by (simp only: norm_segs_append norm_segs_plain [OF assms(2)])
    with assms(1) show ?thesis
      by (simp add: path_key_def is_absolute_append split_path_append_slash split_b)
  qed
  finally show ?thesis .
qed

lemma path_key_join_not_root:
  "a \<noteq> [] \<Longrightarrow> plain_segment b \<Longrightarrow> \<not> is_root_key (path_key (join a b))"
  by (auto simp: path_key_join is_root_key_def plain_segment_def)

subsection \<open>Well-formed trees through lookups\<close>

lemma is_dir_iff: "is_dir n \<longleftrightarrow> (\<exists>w. n = Dir w)"
  by (cases n) auto

lemma fs_wf_map_of:
  "fs_wf fs \<longleftrightarrow> distinct (map fst fs) \<and>
     (\<forall>k n. map_of fs k = Some n \<longrightarrow>
        (if is_root_key k then is_dir n else \<exists>n'. map_of fs (butlast k) = Some n' \<and> is_dir n'))"
proof -
  have case_eq: "(case m of Some n' \<Rightarrow> is_dir n' | None \<Rightarrow> False) \<longleftrightarrow> (\<exists>n'. m = Some n' \<and> is_dir n')"
    for m :: "node option"
    by (cases m) auto
  have "list_all (\<lambda>(k, n). if is_root_key k then is_dir n
          else case map_of fs (butlast k) of Some n' \<Rightarrow> is_dir n' | None \<Rightarrow> False) fs \<longleftrightarrow>
        (\<forall>k n. map_of fs k = Some n \<longrightarrow>
          (if is_root_key k then is_dir n else \<exists>n'. map_of fs (butlast k) = Some n' \<and> is_dir n'))"
    if "distinct (map fst fs)"
    by (auto simp: list_all_iff map_of_eq_Some_iff [OF that] case_eq)
  then show ?thesis unfolding fs_wf_def by blast
qed

lemma fs_wf_parent:
  assumes "fs_wf fs" and "map_of fs k = Some n" and "\<not> is_root_key k"
  shows "\<exists>w. map_of fs (butlast k) = Some (Dir w)"
proof -
  from assms obtain n' where "map_of fs (butlast k) = Some n'" and "is_dir n'"
    unfolding fs_wf_map_of by (metis (full_types))
  then show ?thesis by (auto simp: is_dir_iff)
qed

lemma fs_wf_root_dir:
  "fs_wf fs \<Longrightarrow> map_of fs k = Some n \<Longrightarrow> is_root_key k \<Longrightarrow> is_dir n"
  unfolding fs_wf_map_of by metis

text \<open>Every proper ancestor of an entry is a directory of the tree.\<close>

lemma fs_wf_ancestor:
  assumes "fs_wf fs" and "map_of fs k = Some n" and "strict_prefix p k"
    and "\<not> (p = [] \<and> k \<noteq> [] \<and> hd k = ''/'')"
  shows "\<exists>w. map_of fs p = Some (Dir w)"
  using assms(2-4)
proof (induction k arbitrary: n rule: rev_induct)
  case Nil
  then show ?case by simp
next
  case (snoc x k)
  have not_root: "\<not> is_root_key (k @ [x])"
    using snoc.prems(2,3) by (auto simp: is_root_key_def strict_prefix_def)
  with assms(1) snoc.prems(1) obtain w where parent: "map_of fs k = Some (Dir w)"
    using fs_wf_parent by fastforce
  show ?case
  proof (cases "p = k")
    case True
    with parent show ?thesis by simp
  next
    case False
    with snoc.prems(2) have "strict_prefix p k"
      by (metis prefix_order.dual_order.strict_iff_order prefix_snoc strict_prefix_def)
    moreover have "\<not> (p = [] \<and> k \<noteq> [] \<and> hd k = ''/'')"
      using snoc.prems(3) by auto
    ultimately show ?thesis using snoc.IH parent by blast
  qed
qed

lemma fs_wf_file_no_below:
  assumes "fs_wf fs" and "map_of fs k = Some (File c)" and "strict_prefix k k'"
  shows "map_of fs k' = None"
proof (rule ccontr)
  assume "map_of fs k' \<noteq> None"
  then obtain n where n: "map_of fs k' = Some n" by blast
  from assms(1,2) have "\<not> is_root_key k"
    using fs_wf_root_dir by fastforce
  then have "k \<noteq> []" by (simp add: is_root_key_def)
  with assms(1,3) n obtain w where "map_of fs k = Some (Dir w)"
    using fs_wf_ancestor by blast
  with assms(2) show False by simp
qed

lemma fs_wf_none_no_below:
  assumes "fs_wf fs" and "map_of fs k = None" and "k \<noteq> []" and "strict_prefix k k'"
  shows "map_of fs k' = None"
proof (rule ccontr)
  assume "map_of fs k' \<noteq> None"
  then obtain n where "map_of fs k' = Some n" by blast
  with assms(1,3,4) obtain w where "map_of fs k = Some (Dir w)"
    using fs_wf_ancestor by blast
  with assms(2) show False by simp
qed

subsection \<open>Recursive mkdir\<close>

lemma fs_wf_add_dir:
  assumes wf: "fs_wf fs" and k: "map_of fs k = Some (Dir True)" and new: "map_of fs (k @ [x]) = None"
  shows "fs_wf (AList.update (k @ [x]) (Dir True) fs)"
proof -
  have dist: "distinct (map fst (AList.update (k @ [x]) (Dir True) fs))"
    using wf by (simp add: fs_wf_def distinct_update)
  have m: "map_of (AList.update (k @ [x]) (Dir True) fs) = (map_of fs)(k @ [x] \<mapsto> Dir True)"
    by (simp add: update_conv')
  show ?thesis
    unfolding fs_wf_map_of
  proof (intro conjI allI impI)
    show "distinct (map fst (AList.update (k @ [x]) (Dir True) fs))" by (rule dist)
  next
    fix k' n
    assume k': "map_of (AList.update (k @ [x]) (Dir True) fs) k' = Some n"
    show "if is_root_key k' then is_dir n
          else \<exists>n'. map_of (AList.update (k @ [x]) (Dir True) fs) (butlast k') = Some n' \<and> is_dir n'"
    proof (cases "k' = k @ [x]")
      case True
      with k' k show ?thesis by (auto simp: m)
    next
      case False
      with k' have old: "map_of fs k' = Some n" by (simp add: m)
      with wf have "if is_root_key k' then is_dir n
          else \<exists>n'. map_of fs (butlast k') = Some n' \<and> is_dir n'"
        unfolding fs_wf_map_of by blast
      moreover have "map_of fs (butlast k') \<noteq> None \<Longrightarrow> butlast k' \<noteq> k @ [x]"
        using new by auto
      ultimately show ?thesis by (auto simp: m)
    qed
  qed
qed

lemma mkdirp_from_wf:
  "fs_wf fs \<Longrightarrow> mkdirp_from fs cur ss = Inr fs' \<Longrightarrow> fs_wf fs'"
proof (induction fs cur ss rule: mkdirp_from.induct)
  case (1 fs cur)
  then show ?case by simp
next
  case (2 fs cur s ss)
  show ?case
  proof (cases "map_of fs (cur @ [s])")
    case None
    with "2.prems"(2) have k: "map_of fs cur = Some (Dir True)"
      and rec: "mkdirp_from (AList.update (cur @ [s]) (Dir True) fs) (cur @ [s]) ss = Inr fs'"
      by (auto simp: Let_def split: option.splits node.splits bool.splits)
    from "2.prems"(1) k None have "fs_wf (AList.update (cur @ [s]) (Dir True) fs)"
      by (rule fs_wf_add_dir)
    with "2.IH"(1) [OF refl None k refl refl] rec show ?thesis by simp
  next
    case (Some n)
    with "2.prems"(2) obtain w where n: "n = Dir w" and rec: "mkdirp_from fs (cur @ [s]) ss = Inr fs'"
      by (cases n) (auto simp: Let_def split: if_splits)
    from Some n have "map_of fs (cur @ [s]) = Some (Dir w)" by simp
    from "2.IH"(2) [OF refl this refl] "2.prems"(1) rec show ?thesis by simp
  qed
qed

lemma mkdirp_from_grows:
  "mkdirp_from fs cur ss = Inr fs' \<Longrightarrow>
   map_of fs' k = map_of fs k \<or> (map_of fs k = None \<and> map_of fs' k = Some (Dir True))"
proof (induction fs cur ss rule: mkdirp_from.induct)
  case (1 fs cur)
  then show ?case by simp
next
  case (2 fs cur s ss)
  show ?case
  proof (cases "map_of fs (cur @ [s])")
    case None
    with "2.prems" have k: "map_of fs cur = Some (Dir True)"
      and rec: "mkdirp_from (AList.update (cur @ [s]) (Dir True) fs) (cur @ [s]) ss = Inr fs'"
      by (auto simp: Let_def split: option.splits node.splits bool.splits)
    from "2.IH"(1) [OF refl None k refl refl rec] None show ?thesis
      by (auto simp: update_conv' split: if_splits)
  next
    case (Some n)
    with "2.prems" obtain w where n: "n = Dir w" and rec: "mkdirp_from fs (cur @ [s]) ss = Inr fs'"
      by (cases n) (auto simp: Let_def split: if_splits)
    from Some n have "map_of fs (cur @ [s]) = Some (Dir w)" by simp
    from "2.IH"(2) [OF refl this refl rec] show ?thesis .
  qed
qed

lemma mkdirp_from_exists:
  "mkdirp_from fs cur ss = Inr fs' \<Longrightarrow> ss \<noteq> [] \<Longrightarrow> \<exists>w. map_of fs' (cur @ ss) = Some (Dir w)"
proof (induction fs cur ss rule: mkdirp_from.induct)
  case (1 fs cur)
  then show ?case by simp
next
  case (2 fs cur s ss)
  show ?case
  proof (cases "map_of fs (cur @ [s])")
    case None
    with "2.prems"(1) have k: "map_of fs cur = Some (Dir True)"
      and rec: "mkdirp_from (AList.update (cur @ [s]) (Dir True) fs) (cur @ [s]) ss = Inr fs'"
      by (auto simp: Let_def split: option.splits node.splits bool.splits)
    show ?thesis
    proof (cases ss)
      case Nil
      with rec [symmetric] show ?thesis by (auto simp: update_conv')
    next
      case (Cons a list)
      with "2.IH"(1) [OF refl None k refl refl rec] show ?thesis by simp
    qed
  next
    case (Some n)
    with "2.prems"(1) obtain w where n: "n = Dir w" and rec: "mkdirp_from fs (cur @ [s]) ss = Inr fs'"
      by (cases n) (auto simp: Let_def split: if_splits)
    show ?thesis
    proof (cases ss)
      case Nil
      with rec Some n show ?thesis by simp
    next
      case (Cons a list)
      from Some n have "map_of fs (cur @ [s]) = Some (Dir w)" by simp
      from "2.IH"(2) [OF refl this refl rec] Cons show ?thesis by simp
    qed
  qed
qed

lemma mkdirp_from_walk:
  assumes "\<forall>i. 0 < i \<and> i \<le> length ss \<longrightarrow> (\<exists>w. map_of fs (cur @ take i ss) = Some (Dir w))"
  shows "mkdirp_from fs cur (ss @ ys) = mkdirp_from fs (cur @ ss) ys"
  using assms
proof (induction ss arbitrary: cur)
  case Nil
  then show ?case by simp
next
  case (Cons s ss)
  from Cons.prems obtain w where s: "map_of fs (cur @ [s]) = Some (Dir w)"
    by (metis One_nat_def append_Nil2 le_add1 length_Cons plus_1_eq_Suc take_0 take_Suc_Cons zero_less_one)
  have "\<forall>i. 0 < i \<and> i \<le> length ss \<longrightarrow> (\<exists>w. map_of fs ((cur @ [s]) @ take i ss) = Some (Dir w))"
  proof (intro allI impI)
    fix i
    assume "0 < i \<and> i \<le> length ss"
    with Cons.prems have "\<exists>w. map_of fs (cur @ take (Suc i) (s # ss)) = Some (Dir w)" by auto
    then show "\<exists>w. map_of fs ((cur @ [s]) @ take i ss) = Some (Dir w)" by simp
  qed
  with Cons.IH s show ?case by (simp add: Let_def)
qed

lemma key_start_snoc:
  assumes "x \<noteq> ''/''"
  obtains start ss where "key_start (k @ [x]) = (start, ss @ [x])" and "k = start @ ss"
proof (cases "k \<noteq> [] \<and> hd k = ''/''")
  case True
  then obtain r where "k = ''/'' # r" by (cases k) auto
  then show ?thesis by (intro that [of "[''/'']" r]) (simp_all add: key_start_def)
next
  case False
  with assms have "key_start (k @ [x]) = ([], k @ [x])"
    by (cases k) (simp_all add: key_start_def)
  then show ?thesis by (intro that [of "[]" k]) simp_all
qed

lemma mkdirSync_under_dir:
  assumes wf: "fs_wf fs" and k: "map_of fs k = Some (Dir w)" and x: "x \<noteq> ''/''"
    and key: "path_key t = k @ [x]"
  shows "mkdirSync_recursive fs t = mkdirp_from fs k [x]"
proof -
  obtain start ss where ks: "key_start (k @ [x]) = (start, ss @ [x])" and k_eq: "k = start @ ss"
    using key_start_snoc x by blast
  have "\<forall>i. 0 < i \<and> i \<le> length ss \<longrightarrow> (\<exists>w. map_of fs (start @ take i ss) = Some (Dir w))"
  proof (intro allI impI)
    fix i
    assume i: "0 < i \<and> i \<le> length ss"
    show "\<exists>w. map_of fs (start @ take i ss) = Some (Dir w)"
    proof (cases "i = length ss")
      case True
      with k k_eq show ?thesis by simp
    next
      case False
      with i k_eq have "strict_prefix (start @ take i ss) k"
        by (auto simp: strict_prefix_def take_is_prefix)
      moreover from i have "start @ take i ss \<noteq> []" by (cases ss) auto
      ultimately show ?thesis using fs_wf_ancestor [OF wf k] by blast
    qed
  qed
  then have "mkdirp_from fs start (ss @ [x]) = mkdirp_from fs (start @ ss) [x]"
    by (rule mkdirp_from_walk)
  with ks k_eq show ?thesis by (simp add: mkdirSync_recursive_def key)
qed

subsection \<open>Renaming a file\<close>

lemma move_key_file:
  assumes wf: "fs_wf fs" and s: "map_of fs s = Some (File c)" and k: "map_of fs k \<noteq> None"
  shows "move_key s d k = (if k = s then d else k)"
proof -
  have "\<not> strict_prefix s k"
  proof
    assume "strict_prefix s k"
    with fs_wf_file_no_below [OF wf s] k show False by simp
  qed
  then have "prefix s k \<longleftrightarrow> k = s" by (auto simp: strict_prefix_def)
  then show ?thesis by (auto simp: move_key_def)
qed

lemma rename_entries_file:
  assumes wf: "fs_wf fs" and s: "map_of fs s = Some (File c)" and sd: "s \<noteq> d"
  shows "map_of (rename_entries s d fs) = (map_of fs)(s := None, d \<mapsto> File c)"
proof
  fix k
  let ?xs = "AList.delete d fs"
  let ?f = "move_key s d"
  have keys: "set (map fst ?xs) = set (map fst fs) - {d}"
    using wf by (auto simp: fs_wf_def delete_conv' dom_map_of_conv_image_fst [symmetric])
  have in_keys: "k' \<in> set (map fst fs) \<longleftrightarrow> map_of fs k' \<noteq> None" for k'
    by (simp add: dom_map_of_conv_image_fst [symmetric] domIff)
  have f_on: "k' \<in> set (map fst ?xs) \<Longrightarrow> ?f k' = (if k' = s then d else k')" for k'
    using move_key_file [OF wf s] keys in_keys by blast
  have inj: "inj_on ?f (set (map fst ?xs))"
    using f_on keys by (auto simp: inj_on_def split: if_splits)
  have s_in: "s \<in> set (map fst ?xs)" using keys in_keys s sd by auto
  have xs_map: "map_of ?xs = (map_of fs)(d := None)" by (simp add: delete_conv')
  show "map_of (rename_entries s d fs) k = ((map_of fs)(s := None, d \<mapsto> File c)) k"
  proof (cases "k = d")
    case True
    have "map_of (rename_entries s d fs) (?f s) = map_of ?xs s"
      unfolding rename_entries_def using inj s_in by (rule map_of_map_key_inj)
    with True f_on s_in s sd show ?thesis by (simp add: xs_map)
  next
    case False
    show ?thesis
    proof (cases "k \<in> set (map fst ?xs) \<and> k \<noteq> s")
      case True
      have "map_of (rename_entries s d fs) (?f k) = map_of ?xs k"
        unfolding rename_entries_def using inj True by (intro map_of_map_key_inj) auto
      with True False f_on show ?thesis by (simp add: xs_map)
    next
      case notin: False
      have "k \<notin> ?f ` set (map fst ?xs)" using notin False f_on by auto
      then have "map_of (rename_entries s d fs) k = None"
        unfolding rename_entries_def by (rule map_of_map_key_notin)
      moreover have "k \<noteq> s \<Longrightarrow> map_of fs k = None" using notin False keys in_keys by auto
      ultimately show ?thesis using False by auto
    qed
  qed
qed

lemma renameSync_file:
  assumes wf: "fs_wf fs" and s: "map_of fs (path_key src) = Some (File c)"
    and d_root: "\<not> is_root_key (path_key dst)"
    and d_parent: "map_of fs (butlast (path_key dst)) = Some (Dir True)"
    and s_parent: "writable_dir fs (butlast (path_key src))"
    and sd: "path_key src \<noteq> path_key dst"
    and d: "map_of fs (path_key dst) = None \<or> (\<exists>c'. map_of fs (path_key dst) = Some (File c'))"
  shows "renameSync fs src dst = Inr (rename_entries (path_key src) (path_key dst) fs)"
proof -
  let ?s = "path_key src" and ?d = "path_key dst"
  have s_root: "\<not> is_root_key ?s" using fs_wf_root_dir [OF wf s] by auto
  have not_below: "\<not> prefix ?s ?d"
  proof
    assume "prefix ?s ?d"
    with sd have "prefix ?s (butlast ?d)"
      by (metis prefix_order.dual_order.order_iff_strict prefix_snoc snoc_eq_iff_butlast
          strict_prefix_def d_root is_root_key_def)
    then consider "butlast ?d = ?s" | "strict_prefix ?s (butlast ?d)"
      by (metis strict_prefix_def)
    then show False
    proof cases
      case 1
      with s d_parent show False by simp
    next
      case 2
      with fs_wf_file_no_below [OF wf s] d_parent show False by simp
    qed
  qed
  from d have "(case (File c, map_of fs ?d) of
                 (File c, Some (Dir w')) \<Rightarrow> Inl EISDIR
               | (Dir w, Some (File c)) \<Rightarrow> Inl ENOTDIR
               | (Dir w, Some (Dir w')) \<Rightarrow>
                   if children fs ?d \<noteq> [] then Inl ENOTEMPTY else Inr (rename_entries ?s ?d fs)
               | _ \<Rightarrow> Inr (rename_entries ?s ?d fs)) = Inr (rename_entries ?s ?d fs)"
    by auto
  with s s_root d_root d_parent s_parent sd not_below show ?thesis
    by (simp add: renameSync_def writable_dir_def)
qed

lemma renameSync_same:
  assumes "map_of fs (path_key src) = Some n" and "path_key src = path_key dst"
    and "\<not> is_root_key (path_key dst)" and "map_of fs (butlast (path_key dst)) = Some (Dir w)"
  shows "renameSync fs src dst = Inr fs"
  using assms by (simp add: renameSync_def)

lemma renameSync_missing: "map_of fs (path_key src) = None \<Longrightarrow> renameSync fs src dst = Inl ENOENT"
  by (simp add: renameSync_def)

lemma fs_wf_rename_file:
  assumes wf: "fs_wf fs" and s: "map_of fs s = Some (File c)" and sd: "s \<noteq> d"
    and d_root: "\<not> is_root_key d" and d_parent: "map_of fs (butlast d) = Some (Dir True)"
    and d: "map_of fs d = None \<or> (\<exists>c'. map_of fs d = Some (File c'))"
  shows "fs_wf (rename_entries s d fs)"
proof -
  let ?xs = "AList.delete d fs"
  have m: "map_of (rename_entries s d fs) = (map_of fs)(s := None, d \<mapsto> File c)"
    using wf s sd by (rule rename_entries_file)
  have keys: "set (map fst ?xs) = set (map fst fs) - {d}"
    using wf by (auto simp: fs_wf_def delete_conv' dom_map_of_conv_image_fst [symmetric])
  have in_keys: "k' \<in> set (map fst fs) \<longleftrightarrow> map_of fs k' \<noteq> None" for k'
    by (simp add: dom_map_of_conv_image_fst [symmetric] domIff)
  have f_on: "k' \<in> set (map fst ?xs) \<Longrightarrow> move_key s d k' = (if k' = s then d else k')" for k'
    using move_key_file [OF wf s] keys in_keys by blast
  have inj: "inj_on (move_key s d) (set (map fst ?xs))"
    using f_on keys by (auto simp: inj_on_def split: if_splits)
  have dist: "distinct (map fst (rename_entries s d fs))"
    unfolding rename_entries_def
    using wf inj by (intro distinct_map_key_inj) (simp_all add: fs_wf_def distinct_delete)
  have ds: "butlast d \<noteq> s" using s d_parent by auto
  have dd: "butlast d \<noteq> d" using d_root by (cases d rule: rev_cases) (auto simp: is_root_key_def)
  show ?thesis
    unfolding fs_wf_map_of
  proof (intro conjI allI impI)
    show "distinct (map fst (rename_entries s d fs))" by (rule dist)
  next
    fix k n
    assume kn: "map_of (rename_entries s d fs) k = Some n"
    show "if is_root_key k then is_dir n
          else \<exists>n'. map_of (rename_entries s d fs) (butlast k) = Some n' \<and> is_dir n'"
    proof (cases "k = d")
      case True
      with kn m d_root d_parent ds dd show ?thesis by (auto simp: m)
    next
      case False
      with kn m have old: "map_of fs k = Some n" and ks: "k \<noteq> s" by (auto split: if_splits)
      show ?thesis
      proof (cases "is_root_key k")
        case True
        with fs_wf_root_dir [OF wf old] show ?thesis by simp
      next
        case nr: False
        with fs_wf_parent [OF wf old] obtain w where p: "map_of fs (butlast k) = Some (Dir w)"
          by blast
        with s d have "butlast k \<noteq> s" and "butlast k \<noteq> d" by auto
        with p nr show ?thesis by (simp add: m)
      qed
    qed
  qed
qed

subsection \<open>Writing a file\<close>

lemma fs_wf_put_file:
  assumes wf: "fs_wf fs" and nr: "\<not> is_root_key k" and p: "map_of fs (butlast k) = Some (Dir w)"
    and k: "map_of fs k = None \<or> (\<exists>c'. map_of fs k = Some (File c'))"
  shows "fs_wf (AList.update k (File c) fs)"
proof -
  have m: "map_of (AList.update k (File c) fs) = (map_of fs)(k \<mapsto> File c)"
    by (simp add: update_conv')
  show ?thesis
    unfolding fs_wf_map_of
  proof (intro conjI allI impI)
    show "distinct (map fst (AList.update k (File c) fs))"
      using wf by (simp add: fs_wf_def distinct_update)
  next
    fix k' n
    assume k': "map_of (AList.update k (File c) fs) k' = Some n"
    show "if is_root_key k' then is_dir n
          else \<exists>n'. map_of (AList.update k (File c) fs) (butlast k') = Some n' \<and> is_dir n'"
    proof (cases "k' = k")
      case True
      have "butlast k \<noteq> k" using nr by (cases k rule: rev_cases) (auto simp: is_root_key_def)
      with True nr p show ?thesis by (auto simp: m)
    next
      case False
      with k' have old: "map_of fs k' = Some n" by (simp add: m)
      with wf have "if is_root_key k' then is_dir n
          else \<exists>n'. map_of fs (butlast k') = Some n' \<and> is_dir n'"
        unfolding fs_wf_map_of by blast
      moreover have "map_of fs (butlast k') = Some n' \<Longrightarrow> is_dir n' \<Longrightarrow> butlast k' \<noteq> k" for n'
        using k by auto
      ultimately show ?thesis by (cases "is_root_key k'") (auto simp: m)
    qed
  qed
qed

lemma writeFileSync_Inr:
  "writeFileSync fs p c = Inr fs' \<longleftrightarrow>
     \<not> is_root_key (path_key p) \<and> map_of fs (butlast (path_key p)) = Some (Dir True) \<and>
     (map_of fs (path_key p) = None \<or> (\<exists>c'. map_of fs (path_key p) = Some (File c'))) \<and>
     fs' = AList.update (path_key p) (File c) fs"
  by (auto simp: writeFileSync_def Let_def split: option.splits node.splits)

lemma writeFileSync_wf: "fs_wf fs \<Longrightarrow> writeFileSync fs p c = Inr fs' \<Longrightarrow> fs_wf fs'"
  by (auto simp: writeFileSync_Inr intro: fs_wf_put_file)

lemma writeFileSync_map_of:
  "writeFileSync fs p c = Inr fs' \<Longrightarrow> map_of fs' = (map_of fs)(path_key p \<mapsto> File c)"
  by (auto simp: writeFileSync_Inr update_conv')

subsection \<open>Listing a directory\<close>

lemma children_member:
  assumes "map_of fs (k @ [n]) \<noteq> None" and "\<not> is_root_key (k @ [n])"
  shows "n \<in> set (children fs k)"
proof -
  from assms(1) obtain x where "(k @ [n], x) \<in> set fs" by (auto dest: map_of_SomeD)
  with assms(2) show ?thesis by (force simp: children_def)
qed

lemma children_lookup:
  assumes "m \<in> set (children fs k)"
  shows "map_of fs (k @ [m]) \<noteq> None"
proof -
  from assms obtain k' x where kx: "(k', x) \<in> set fs" and nr: "\<not> is_root_key k'"
    and bl: "butlast k' = k" and lm: "last k' = m"
    by (auto simp: children_def)
  from nr have "k' \<noteq> []" by (simp add: is_root_key_def)
  with bl lm have "k' = k @ [m]" by (metis append_butlast_last_id)
  with kx show ?thesis by (auto dest: weak_map_of_SomeI)
qed

subsection \<open>Renaming in general\<close>

lemma prefix_drop_eq: "prefix s k \<Longrightarrow> k = s @ drop (length s) k"
  by (auto simp: prefix_def)

lemma move_key_inj:
  assumes below: "\<forall>k. strict_prefix d k \<longrightarrow> k \<notin> K" and d: "d \<notin> K"
  shows "inj_on (move_key s d) K"
proof (rule inj_onI)
  fix k1 k2
  assume k1: "k1 \<in> K" and k2: "k2 \<in> K" and eq: "move_key s d k1 = move_key s d k2"
  have under: "prefix d (move_key s d k) \<and> move_key s d k \<noteq> d \<Longrightarrow> k \<notin> K \<Longrightarrow> False"
    if "prefix s k" "k \<in> K" for k
    using that by simp
  consider "prefix s k1" "prefix s k2" | "prefix s k1" "\<not> prefix s k2"
    | "\<not> prefix s k1" "prefix s k2" | "\<not> prefix s k1" "\<not> prefix s k2" by blast
  then show "k1 = k2"
  proof cases
    case 1
    with eq have "drop (length s) k1 = drop (length s) k2" by (simp add: move_key_def)
    with 1 show ?thesis by (metis prefix_drop_eq)
  next
    case 2
    with eq have "k2 = d @ drop (length s) k1" by (simp add: move_key_def)
    with d k2 have "strict_prefix d k2" by (auto simp: strict_prefix_def)
    with below k2 show ?thesis by blast
  next
    case 3
    with eq have "k1 = d @ drop (length s) k2" by (simp add: move_key_def)
    with d k1 have "strict_prefix d k1" by (auto simp: strict_prefix_def)
    with below k1 show ?thesis by blast
  next
    case 4
    with eq show ?thesis by (simp add: move_key_def)
  qed
qed

text \<open>
  The tree after a rename whose destination has nothing below it: every surviving entry
  is found at its moved key with its node, and nothing else is there.
\<close>

lemma rename_entries_lookup:
  assumes wf: "fs_wf fs" and below: "\<forall>k. strict_prefix d k \<longrightarrow> map_of fs k = None"
  shows "distinct (map fst (rename_entries s d fs))"
    and "map_of fs k = Some n \<Longrightarrow> k \<noteq> d \<Longrightarrow> map_of (rename_entries s d fs) (move_key s d k) = Some n"
    and "map_of (rename_entries s d fs) k' = Some n \<Longrightarrow>
           \<exists>k. k \<noteq> d \<and> k' = move_key s d k \<and> map_of fs k = Some n"
proof -
  let ?xs = "AList.delete d fs"
  have keys: "set (map fst ?xs) = set (map fst fs) - {d}"
    using wf by (auto simp: fs_wf_def delete_conv' dom_map_of_conv_image_fst [symmetric])
  have in_keys: "k' \<in> set (map fst fs) \<longleftrightarrow> map_of fs k' \<noteq> None" for k'
    by (simp add: dom_map_of_conv_image_fst [symmetric] domIff)
  have inj: "inj_on (move_key s d) (set (map fst ?xs))"
    using below keys in_keys by (intro move_key_inj) auto
  have xs_map: "map_of ?xs = (map_of fs)(d := None)" by (simp add: delete_conv')
  have dxs: "distinct (map fst ?xs)" using wf by (simp add: fs_wf_def distinct_delete)
  show "distinct (map fst (rename_entries s d fs))"
    unfolding rename_entries_def using dxs inj by (rule distinct_map_key_inj)
  show "map_of (rename_entries s d fs) (move_key s d k) = Some n"
    if "map_of fs k = Some n" "k \<noteq> d"
  proof -
    have "k \<in> set (map fst ?xs)" using that keys in_keys by auto
    then have "map_of (rename_entries s d fs) (move_key s d k) = map_of ?xs k"
      unfolding rename_entries_def using inj by (intro map_of_map_key_inj) auto
    with that show ?thesis by (simp add: xs_map)
  qed
  show "\<exists>k. k \<noteq> d \<and> k' = move_key s d k \<and> map_of fs k = Some n"
    if "map_of (rename_entries s d fs) k' = Some n"
  proof -
    from that have "(k', n) \<in> set (rename_entries s d fs)" by (rule map_of_SomeD)
    then obtain k where kn: "(k, n) \<in> set ?xs" and k': "k' = move_key s d k"
      by (auto simp: rename_entries_def)
    from map_of_is_SomeI [OF dxs kn] have "map_of ?xs k = Some n" .
    with k' show ?thesis by (auto simp: xs_map split: if_splits)
  qed
qed

lemma not_root_append: "\<not> is_root_key d \<Longrightarrow> \<not> is_root_key (d @ r)"
  by (cases d) (auto simp: is_root_key_def)

lemma fs_wf_rename_entries:
  assumes wf: "fs_wf fs" and s_root: "\<not> is_root_key s" and d_root: "\<not> is_root_key d"
    and d_parent: "\<exists>w. map_of fs (butlast d) = Some (Dir w)" and sd: "\<not> prefix s d"
    and below: "\<forall>k. strict_prefix d k \<longrightarrow> map_of fs k = None"
  shows "fs_wf (rename_entries s d fs)"
  unfolding fs_wf_map_of
proof (intro conjI allI impI)
  note R = rename_entries_lookup [where s = s, OF wf below]
  show "distinct (map fst (rename_entries s d fs))" by (rule R(1))
  fix k' n
  assume "map_of (rename_entries s d fs) k' = Some n"
  then obtain k where kd: "k \<noteq> d" and k': "k' = move_key s d k" and kn: "map_of fs k = Some n"
    using R(3) by blast
  have keep: "map_of fs p = Some (Dir w) \<Longrightarrow> \<not> prefix s p \<Longrightarrow> p \<noteq> d \<Longrightarrow>
              map_of (rename_entries s d fs) p = Some (Dir w)" for p w
    using R(2) [of p "Dir w"] by (simp add: move_key_def)
  show "if is_root_key k' then is_dir n
        else \<exists>n'. map_of (rename_entries s d fs) (butlast k') = Some n' \<and> is_dir n'"
  proof (cases "prefix s k")
    case True
    define r where "r = drop (length s) k"
    have k'r: "k' = d @ r" using True by (simp add: k' move_key_def r_def)
    have nr: "\<not> is_root_key k'" using d_root by (simp add: k'r not_root_append)
    show ?thesis
    proof (cases "r = []")
      case True
      then have "k' = d" by (simp add: k'r)
      moreover have "\<not> prefix s (butlast d)" using sd prefix_order.trans prefixeq_butlast by blast
      moreover have "butlast d \<noteq> d" using d_root by (cases d rule: rev_cases) (auto simp: is_root_key_def)
      ultimately show ?thesis using d_parent keep nr by fastforce
    next
      case False
      have kr: "k = s @ r" using prefix_drop_eq [OF \<open>prefix s k\<close>] by (simp add: r_def)
      have k_nr: "\<not> is_root_key k" using s_root by (simp add: kr not_root_append)
      obtain w where pk: "map_of fs (butlast k) = Some (Dir w)" using fs_wf_parent [OF wf kn k_nr] by blast
      have bk: "butlast k = s @ butlast r" using False by (simp add: kr butlast_append)
      have "butlast k \<noteq> d" using sd bk by auto
      then have "map_of (rename_entries s d fs) (move_key s d (butlast k)) = Some (Dir w)"
        using R(2) pk by blast
      moreover have "move_key s d (butlast k) = butlast k'"
        using False by (simp add: bk k'r move_key_def butlast_append)
      ultimately show ?thesis using nr by simp
    qed
  next
    case False
    then have k'k: "k' = k" by (simp add: k' move_key_def)
    show ?thesis
    proof (cases "is_root_key k")
      case True
      with fs_wf_root_dir [OF wf kn] k'k show ?thesis by simp
    next
      case nr: False
      obtain w where pk: "map_of fs (butlast k) = Some (Dir w)" using fs_wf_parent [OF wf kn nr] by blast
      have "\<not> prefix s (butlast k)" using False prefix_order.trans prefixeq_butlast by blast
      moreover have "butlast k \<noteq> d"
      proof
        assume "butlast k = d"
        with nr have "strict_prefix d k"
          by (cases k rule: rev_cases) (auto simp: is_root_key_def strict_prefix_def)
        with below kn show False by simp
      qed
      ultimately show ?thesis using keep pk nr k'k by fastforce
    qed
  qed
qed

lemma children_empty_below:
  assumes wf: "fs_wf fs" and d: "\<not> is_root_key d" and ch: "children fs d = []"
  shows "\<forall>k. strict_prefix d k \<longrightarrow> map_of fs k = None"
proof (intro allI impI)
  fix k
  assume sp: "strict_prefix d k"
  then obtain zs where "k = d @ zs" and "zs \<noteq> []" by (auto simp: strict_prefix_def prefix_def)
  then obtain x r where kx: "k = d @ x # r" by (cases zs) auto
  show "map_of fs k = None"
  proof (rule ccontr)
    assume "map_of fs k \<noteq> None"
    then obtain n where kn: "map_of fs k = Some n" by blast
    have "map_of fs (d @ [x]) \<noteq> None"
    proof (cases "r = []")
      case True
      with kn kx show ?thesis by simp
    next
      case False
      then have "strict_prefix (d @ [x]) k" by (simp add: kx strict_prefix_def)
      with fs_wf_ancestor [OF wf kn] show ?thesis by fastforce
    qed
    with not_root_append [OF d] have "x \<in> set (children fs d)" by (intro children_member) auto
    with ch show False by simp
  qed
qed

text \<open>
  A successful \<open>renameSync\<close> is a no-op on the same path, or moves the source's subtree
  to a destination that has nothing below it.
\<close>

lemma renameSync_InrE:
  assumes wf: "fs_wf fs" and ok: "renameSync fs src dst = Inr fs'"
  obtains (same) "path_key src = path_key dst" and "fs' = fs"
    | (moved) "path_key src \<noteq> path_key dst" and "\<not> is_root_key (path_key src)"
        and "\<not> is_root_key (path_key dst)"
        and "\<exists>w. map_of fs (butlast (path_key dst)) = Some (Dir w)"
        and "\<not> prefix (path_key src) (path_key dst)"
        and "\<forall>k. strict_prefix (path_key dst) k \<longrightarrow> map_of fs k = None"
        and "fs' = rename_entries (path_key src) (path_key dst) fs"
proof (cases "path_key src = path_key dst")
  case True
  with ok have "fs' = fs" by (auto simp: renameSync_def Let_def split: option.splits node.splits if_splits)
  with True show ?thesis by (rule same)
next
  case False
  let ?s = "path_key src" and ?d = "path_key dst"
  from ok False obtain w where s_root: "\<not> is_root_key ?s" and d_root: "\<not> is_root_key ?d"
    and dp: "map_of fs (butlast ?d) = Some (Dir w)" and sd: "\<not> prefix ?s ?d"
    and tgt: "map_of fs ?d = None \<or> (\<exists>c. map_of fs ?d = Some (File c)) \<or>
              (\<exists>w'. map_of fs ?d = Some (Dir w') \<and> children fs ?d = [])"
    and res: "fs' = rename_entries ?s ?d fs"
    by (auto simp: renameSync_def Let_def split: option.splits node.splits if_splits)
  have dne: "?d \<noteq> []" using d_root by (simp add: is_root_key_def)
  have below: "\<forall>k. strict_prefix ?d k \<longrightarrow> map_of fs k = None"
    using tgt fs_wf_none_no_below [OF wf _ dne] fs_wf_file_no_below [OF wf]
      children_empty_below [OF wf d_root] by blast
  from False s_root d_root dp sd below res show ?thesis by (intro moved) blast+
qed

lemma renameSync_wf:
  assumes wf: "fs_wf fs" and ok: "renameSync fs src dst = Inr fs'"
  shows "fs_wf fs'"
  using wf ok
proof (cases rule: renameSync_InrE)
  case same
  with wf show ?thesis by simp
next
  case moved
  then show ?thesis using wf by (auto intro: fs_wf_rename_entries)
qed

text \<open>Entries outside the moved subtree and outside the destination keep their nodes.\<close>

lemma renameSync_unrelated:
  assumes wf: "fs_wf fs" and ok: "renameSync fs src dst = Inr fs'"
    and s: "\<not> prefix (path_key src) k" and d: "\<not> prefix (path_key dst) k"
  shows "map_of fs' k = map_of fs k"
  using wf ok
proof (cases rule: renameSync_InrE)
  case same
  then show ?thesis by simp
next
  case moved
  note R = rename_entries_lookup [where s = "path_key src", OF wf moved(6)]
  have mk: "move_key (path_key src) (path_key dst) k = k" using s by (simp add: move_key_def)
  have kd: "k \<noteq> path_key dst" using d by auto
  show ?thesis
  proof (cases "map_of fs k")
    case None
    show ?thesis
    proof (rule ccontr)
      assume "map_of fs' k \<noteq> map_of fs k"
      with None obtain n where "map_of (rename_entries (path_key src) (path_key dst) fs) k = Some n"
        using moved(7) by auto
      then obtain k0 where "k = move_key (path_key src) (path_key dst) k0" and "map_of fs k0 = Some n"
        using R(3) by blast
      with None d show False by (auto simp: move_key_def split: if_splits)
    qed
  next
    case (Some n)
    with R(2) [OF Some kd] mk moved(7) show ?thesis by simp
  qed
qed

text \<open>A successful rename never moves a proper ancestor of its destination.\<close>

lemma renameSync_src_not_above:
  assumes wf: "fs_wf fs" and ok: "renameSync fs src dst = Inr fs'"
    and k: "strict_prefix k (path_key dst)"
  shows "\<not> prefix (path_key src) k"
proof
  assume sk: "prefix (path_key src) k"
  then have sd: "prefix (path_key src) (path_key dst)"
    using k by (auto simp: strict_prefix_def intro: prefix_order.trans)
  from wf ok show False
  proof (cases rule: renameSync_InrE)
    case same
    with sk k show False by (auto simp: strict_prefix_def dest: prefix_order.antisym)
  next
    case moved
    with sd show False by simp
  qed
qed

lemma renameSync_keeps_ancestor:
  assumes wf: "fs_wf fs" and ok: "renameSync fs src dst = Inr fs'"
    and k: "strict_prefix k (path_key dst)"
  shows "map_of fs' k = map_of fs k"
proof (rule renameSync_unrelated [OF wf ok])
  show "\<not> prefix (path_key src) k" using wf ok k by (rule renameSync_src_not_above)
  show "\<not> prefix (path_key dst) k"
    using k by (auto simp: strict_prefix_def dest: prefix_order.antisym)
qed

subsection \<open>The errors of recursive mkdir\<close>

lemma mkdirp_from_error: "mkdirp_from fs cur ss = Inl e \<Longrightarrow> e \<in> {EEXIST, ENOTDIR, EACCES, ENOENT}"
  by (induction fs cur ss rule: mkdirp_from.induct)
     (auto simp: Let_def split: option.splits node.splits bool.splits if_splits)

lemma mkdirSync_recursive_error:
  "mkdirSync_recursive fs p = Inl e \<Longrightarrow> e \<in> {EEXIST, ENOTDIR, EACCES, ENOENT}"
  by (auto simp: mkdirSync_recursive_def split: prod.splits dest: mkdirp_from_error)

subsection \<open>The primitives on well-formed trees\<close>

lemma key_start_parts:
  "key_start k = (start, ss) \<Longrightarrow> start @ ss = k \<and> (\<not> is_root_key k \<longrightarrow> ss \<noteq> [])"
  by (cases k) (auto simp: key_start_def is_root_key_def split: if_splits)

lemma existsSync_iff: "existsSync fs p \<longleftrightarrow> (\<exists>n. map_of fs (path_key p) = Some n)"
  by (simp add: existsSync_def)

lemma mkdirSync_recursive_exists:
  "mkdirSync_recursive fs p = Inr fs' \<Longrightarrow> \<not> is_root_key (path_key p) \<Longrightarrow>
   \<exists>w. map_of fs' (path_key p) = Some (Dir w)"
proof -
  assume mk: "mkdirSync_recursive fs p = Inr fs'" and nr: "\<not> is_root_key (path_key p)"
  obtain start ss where ks: "key_start (path_key p) = (start, ss)" by (cases "key_start (path_key p)")
  with key_start_parts [OF ks] nr have "ss \<noteq> []" and eq: "start @ ss = path_key p" by auto
  with mk ks mkdirp_from_exists show ?thesis by (fastforce simp: mkdirSync_recursive_def)
qed

lemma mkdirSync_recursive_wf:
  "fs_wf fs \<Longrightarrow> mkdirSync_recursive fs p = Inr fs' \<Longrightarrow> fs_wf fs'"
  by (auto simp: mkdirSync_recursive_def split: prod.splits intro: mkdirp_from_wf)

lemma mkdirSync_recursive_grows:
  "mkdirSync_recursive fs p = Inr fs' \<Longrightarrow>
   map_of fs' k = map_of fs k \<or> (map_of fs k = None \<and> map_of fs' k = Some (Dir True))"
  by (auto simp: mkdirSync_recursive_def split: prod.splits dest: mkdirp_from_grows)

subsection \<open>The last segment of a key\<close>

lemma split_path_slashes: "split_path (replicate n CHR ''/'') = replicate (Suc n) []"
  by (induction n) simp_all

lemma split_path_seg_slashes:
  "CHR ''/'' \<notin> set b \<Longrightarrow> split_path (b @ replicate n CHR ''/'') = b # replicate n []"
proof (cases n)
  case 0
  then show "CHR ''/'' \<notin> set b \<Longrightarrow> ?thesis" by (simp add: split_path_no_slash)
next
  case (Suc m)
  then have "b @ replicate n CHR ''/'' = b @ CHR ''/'' # replicate m CHR ''/''" by simp
  then show "CHR ''/'' \<notin> set b \<Longrightarrow> ?thesis"
    using Suc by (simp add: split_path_append_slash split_path_no_slash split_path_slashes)
qed

lemma norm_segs_empties: "norm_segs up res (replicate n []) = res"
  by (induction n) simp_all

lemma basename_decomp:
  obtains q n where "p = q @ basename p @ replicate n CHR ''/''"
    and "q = [] \<or> last q = CHR ''/''"
proof -
  let ?r = "rev p"
  define sl where "sl = takeWhile (\<lambda>c. c = CHR ''/'') ?r"
  define r1 where "r1 = dropWhile (\<lambda>c. c = CHR ''/'') ?r"
  define t where "t = takeWhile (\<lambda>c. c \<noteq> CHR ''/'') r1"
  define r2 where "r2 = dropWhile (\<lambda>c. c \<noteq> CHR ''/'') r1"
  have r: "?r = sl @ t @ r2" by (simp add: sl_def r1_def t_def r2_def)
  have sl: "sl = replicate (length sl) CHR ''/''"
    unfolding sl_def by (rule replicate_length_same [symmetric]) (auto dest: set_takeWhileD)
  have b: "basename p = rev t" by (simp add: basename_def t_def r1_def)
  have r2: "r2 = [] \<or> hd r2 = CHR ''/''"
  proof (cases "r2 = []")
    case False
    then have "\<not> hd r2 \<noteq> CHR ''/''" unfolding r2_def by (rule hd_dropWhile)
    then show ?thesis by blast
  qed simp
  have "p = rev (sl @ t @ r2)" using r by (metis rev_rev_ident)
  then have eq: "p = rev r2 @ rev t @ rev sl" by simp
  have "p = rev r2 @ basename p @ rev sl" by (subst b) (rule eq)
  then have p: "p = rev r2 @ basename p @ replicate (length sl) CHR ''/''"
    using sl by (metis rev_replicate)
  have "rev r2 = [] \<or> last (rev r2) = CHR ''/''"
    using r2 by (cases r2) auto
  with p show ?thesis by (rule that)
qed

lemma path_key_basename:
  assumes "plain_segment (basename p)"
  shows "\<exists>ks. path_key p = ks @ [basename p]"
proof -
  let ?b = "basename p"
  obtain q n where p: "p = q @ ?b @ replicate n CHR ''/''" and q: "q = [] \<or> last q = CHR ''/''"
    by (rule basename_decomp)
  from assms have nob: "CHR ''/'' \<notin> set ?b" and bne: "?b \<noteq> []" by (simp_all add: plain_segment_def)
  have seg: "norm_segs u res (split_path (?b @ replicate n CHR ''/'')) = res @ [?b]" for u res
  proof -
    have "split_path (?b @ replicate n CHR ''/'') = [?b] @ replicate n []"
      using split_path_seg_slashes [OF nob] by simp
    then have "norm_segs u res (split_path (?b @ replicate n CHR ''/'')) =
               norm_segs u (norm_segs u res [?b]) (replicate n [])"
      by (simp only: norm_segs_append)
    also have "\<dots> = res @ [?b]"
      by (simp only: norm_segs_plain [OF assms] norm_segs_empties)
    finally show ?thesis .
  qed
  show ?thesis
  proof (cases "q = []")
    case True
    with p bne have "\<not> is_absolute p" using nob by (cases ?b) (auto simp: is_absolute_def)
    with True p seg show ?thesis by (metis append_Nil path_key_def)
  next
    case False
    with q obtain q' where "q = q' @ [CHR ''/'']" by (metis append_butlast_last_id)
    with p have pq: "p = q' @ CHR ''/'' # (?b @ replicate n CHR ''/'')" by simp
    have "norm_segs u [] (split_path p) = norm_segs u [] (split_path q') @ [?b]" for u
      by (subst pq) (simp only: split_path_append_slash norm_segs_append seg)
    then show ?thesis by (auto simp: path_key_def)
  qed
qed

end
