(* ===== verification/Directory_Ensurer.thy ===== *)
theory Directory_Ensurer
  imports File_System
begin

text \<open>
  The console and the state every handler of \<open>src/index.js\<close> threads: the file system and
  the lines written so far. Then \<open>createDirectoryIfNeeded\<close> (lines 10--15), the
  specification's DirectoryEnsurer: \<open>existsSync\<close>, and \<open>mkdirSync\<close> with
  \<open>recursive: true\<close> when the path is missing, logging the creation. \<open>mkdirSync\<close> may
  throw, and nothing in the function catches it: the exception is the \<open>Inl\<close> result.
\<close>

section \<open>Console and handler state\<close>

text \<open>
  A line goes to standard output (\<open>console.log\<close>) or standard error
  (\<open>console.error\<close>), with or without the \<open>[yyyy-MM-dd HH:mm:ss]\<close> prefix that
  \<open>format(new Date(), ...)\<close> produces; the time itself is not modelled.
\<close>

datatype stream = Stdout | Stderr

datatype log_line = Log stream bool string

record io_state =
  fs :: fsys
  log :: "log_line list"

definition info :: "string \<Rightarrow> log_line" where
  "info msg = Log Stdout True msg"

section \<open>createDirectoryIfNeeded\<close>

definition createDirectoryIfNeeded :: "string \<Rightarrow> 'a io_state_scheme \<Rightarrow> fs_error + 'a io_state_scheme" where
  "createDirectoryIfNeeded dirPath st =
     (if \<not> existsSync (fs st) dirPath then
        (case mkdirSync_recursive (fs st) dirPath of
           Inl e \<Rightarrow> Inl e
         | Inr fs' \<Rightarrow> Inr (st\<lparr>fs := fs', log := log st @ [info (''Created directory: '' @ dirPath)]\<rparr>))
      else Inr st)"

section \<open>Lemmas\<close>

lemma createDirectoryIfNeeded_exists:
  "existsSync (fs st) t \<Longrightarrow> createDirectoryIfNeeded t st = Inr st"
  by (simp add: createDirectoryIfNeeded_def)

lemma createDirectoryIfNeeded_cases:
  assumes "createDirectoryIfNeeded t st = Inr st'"
  obtains (existing) "existsSync (fs st) t" and "st' = st"
    | (created) fs' where "\<not> existsSync (fs st) t" and "mkdirSync_recursive (fs st) t = Inr fs'"
        and "st' = st\<lparr>fs := fs', log := log st @ [info (''Created directory: '' @ t)]\<rparr>"
  using assms by (auto simp: createDirectoryIfNeeded_def split: if_splits sum.splits)

lemma createDirectoryIfNeeded_more:
  "createDirectoryIfNeeded t st = Inr st' \<Longrightarrow> io_state.more st' = io_state.more st"
  by (erule createDirectoryIfNeeded_cases) simp_all

lemma createDirectoryIfNeeded_wf:
  "fs_wf (fs st) \<Longrightarrow> createDirectoryIfNeeded t st = Inr st' \<Longrightarrow> fs_wf (fs st')"
  by (erule createDirectoryIfNeeded_cases) (auto intro: mkdirSync_recursive_wf)

lemma createDirectoryIfNeeded_grows:
  "createDirectoryIfNeeded t st = Inr st' \<Longrightarrow>
   map_of (fs st') k = map_of (fs st) k \<or> (map_of (fs st) k = None \<and> map_of (fs st') k = Some (Dir True))"
  by (erule createDirectoryIfNeeded_cases) (auto dest: mkdirSync_recursive_grows)

lemma createDirectoryIfNeeded_under_dir:
  assumes wf: "fs_wf (fs st)" and k: "map_of (fs st) k = Some (Dir w)" and x: "x \<noteq> ''/''"
    and key: "path_key t = k @ [x]" and missing: "map_of (fs st) (k @ [x]) = None"
  shows "createDirectoryIfNeeded t st =
           (if w then Inr (st\<lparr>fs := AList.update (k @ [x]) (Dir True) (fs st),
                             log := log st @ [info (''Created directory: '' @ t)]\<rparr>)
            else Inl EACCES)"
proof -
  have "mkdirSync_recursive (fs st) t = mkdirp_from (fs st) k [x]"
    using wf k x key by (rule mkdirSync_under_dir)
  with k missing key show ?thesis
    by (cases w) (simp_all add: createDirectoryIfNeeded_def existsSync_def Let_def)
qed

lemma createDirectoryIfNeeded_log:
  "createDirectoryIfNeeded t st = Inr st' \<Longrightarrow> prefix (log st) (log st')"
  by (erule createDirectoryIfNeeded_cases) simp_all

lemma createDirectoryIfNeeded_error:
  "createDirectoryIfNeeded t st = Inl e \<Longrightarrow> mkdirSync_recursive (fs st) t = Inl e"
  by (auto simp: createDirectoryIfNeeded_def split: if_splits sum.splits)

section \<open>Properties\<close>

text \<open>
  C9. Ensuring a directory is idempotent: once \<open>createDirectoryIfNeeded\<close> has returned
  for a path (other than a root), calling it again on the resulting state returns that
  state unchanged: no failure, no new directory, no new log line.
\<close>

theorem createDirectoryIfNeeded_idempotent:
  assumes first: "createDirectoryIfNeeded t st = Inr st'" and nr: "\<not> is_root_key (path_key t)"
  shows "createDirectoryIfNeeded t st' = Inr st'"
  using first
proof (cases rule: createDirectoryIfNeeded_cases)
  case existing
  then show ?thesis by (simp add: createDirectoryIfNeeded_exists)
next
  case (created fs')
  with nr have "existsSync fs' t"
    by (auto simp: existsSync_iff dest: mkdirSync_recursive_exists)
  with created show ?thesis by (simp add: createDirectoryIfNeeded_exists)
qed

theorem createDirectoryIfNeeded_idempotent_witness:
  "createDirectoryIfNeeded ''doc''
     \<lparr>fs = [([], Dir True), ([''doc''], Dir True)], log = [info ''Created directory: doc'']\<rparr> =
   Inr \<lparr>fs = [([], Dir True), ([''doc''], Dir True)], log = [info ''Created directory: doc'']\<rparr>"
proof -
  have first: "createDirectoryIfNeeded ''doc'' \<lparr>fs = [([], Dir True)], log = []\<rparr> =
    Inr \<lparr>fs = [([], Dir True), ([''doc''], Dir True)], log = [info ''Created directory: doc'']\<rparr>"
    by code_simp
  have nr: "\<not> is_root_key (path_key ''doc'')" by code_simp
  from createDirectoryIfNeeded_idempotent [OF first nr] show ?thesis .
qed

text \<open>
  C10. What \<open>createDirectoryIfNeeded\<close> does when it returns: the path then exists; a
  line "Created directory: \<dots>" is logged exactly when it did not exist before; and the
  file system only gains directories: every entry keeps its node, and every changed key was
  absent and is now a writable directory.
\<close>

theorem createDirectoryIfNeeded_effect:
  assumes ok: "createDirectoryIfNeeded t st = Inr st'" and nr: "\<not> is_root_key (path_key t)"
  shows "existsSync (fs st') t \<and>
         log st' = log st @ (if existsSync (fs st) t then [] else [info (''Created directory: '' @ t)]) \<and>
         (\<forall>k. map_of (fs st') k = map_of (fs st) k \<or>
              (map_of (fs st) k = None \<and> map_of (fs st') k = Some (Dir True)))"
proof -
  have grows: "\<forall>k. map_of (fs st') k = map_of (fs st) k \<or>
      (map_of (fs st) k = None \<and> map_of (fs st') k = Some (Dir True))"
    using ok by (blast dest: createDirectoryIfNeeded_grows)
  from ok have "existsSync (fs st') t \<and>
      log st' = log st @ (if existsSync (fs st) t then [] else [info (''Created directory: '' @ t)])"
  proof (cases rule: createDirectoryIfNeeded_cases)
    case existing
    then show ?thesis by simp
  next
    case (created fs')
    with nr show ?thesis
      by (auto simp: existsSync_iff dest: mkdirSync_recursive_exists)
  qed
  with grows show ?thesis by blast
qed

theorem createDirectoryIfNeeded_effect_witness:
  "existsSync [([], Dir True), ([''doc''], Dir True)] ''doc'' \<and>
   [info ''Created directory: doc''] = [] @ [info ''Created directory: doc'']"
proof -
  have ok: "createDirectoryIfNeeded ''doc'' \<lparr>fs = [([], Dir True)], log = []\<rparr> =
    Inr \<lparr>fs = [([], Dir True), ([''doc''], Dir True)], log = [info ''Created directory: doc'']\<rparr>"
    by code_simp
  have nr: "\<not> is_root_key (path_key ''doc'')" by code_simp
  have miss: "\<not> existsSync [([], Dir True)] ''doc''" by code_simp
  from createDirectoryIfNeeded_effect [OF ok nr] miss show ?thesis by simp
qed

end
