(* ===== verification/File_Contents.thy ===== *)
theory File_Contents
  imports File_System "HOL-Library.Multiset"
begin

text \<open>
  The contents held by a tree, as a multiset of the content identifiers of its files.
  It measures what a sequence of primitives can lose: \<open>mkdirSync\<close> keeps it, a rename
  keeps it except for a file it replaces at the destination, a write adds its file
  and drops the one it overwrites.
\<close>

primrec node_files :: "node \<Rightarrow> nat multiset" where
  "node_files (File c) = {#c#}"
| "node_files (Dir w) = {#}"

definition file_contents :: "fsys \<Rightarrow> nat multiset" where
  "file_contents fs = sum_list (map (\<lambda>(k, n). node_files n) fs)"

definition entry_files :: "fsys \<Rightarrow> fkey \<Rightarrow> nat multiset" where
  "entry_files fs k = (case map_of fs k of Some n \<Rightarrow> node_files n | None \<Rightarrow> {#})"

section \<open>Lemmas\<close>

lemma size_node_files: "size (node_files n) \<le> 1"
  by (cases n) simp_all

lemma size_entry_files: "size (entry_files fs k) \<le> 1"
  using size_node_files by (simp add: entry_files_def split: option.splits)

lemma file_contents_Nil [simp]: "file_contents [] = {#}"
  by (simp add: file_contents_def)

lemma file_contents_Cons [simp]: "file_contents ((k, n) # fs) = node_files n + file_contents fs"
  by (simp add: file_contents_def)

lemma file_contents_update_new:
  "map_of fs k = None \<Longrightarrow> file_contents (AList.update k n fs) = file_contents fs + node_files n"
  by (induction fs) auto

lemma file_contents_delete:
  "distinct (map fst fs) \<Longrightarrow> file_contents fs = file_contents (AList.delete k fs) + entry_files fs k"
proof (induction fs)
  case Nil
  then show ?case by (simp add: entry_files_def)
next
  case (Cons p fs)
  obtain k' n where p: "p = (k', n)" by (cases p)
  show ?case
  proof (cases "k' = k")
    case True
    with Cons.prems p have "map_of fs k = None" by (auto simp: map_of_eq_None_iff)
    then have "AList.delete k fs = fs" by (simp add: delete_id map_of_eq_None_iff)
    with True p show ?thesis by (simp add: entry_files_def add.commute)
  next
    case False
    with Cons p show ?thesis by (simp add: entry_files_def add.assoc)
  qed
qed

lemma file_contents_map_keys: "file_contents (map (\<lambda>(k, n). (f k, n)) fs) = file_contents fs"
  by (induction fs) auto

lemma mkdirp_from_contents:
  "mkdirp_from fs cur ss = Inr fs' \<Longrightarrow> file_contents fs' = file_contents fs"
  by (induction fs cur ss rule: mkdirp_from.induct)
     (auto simp: Let_def file_contents_update_new split: option.splits node.splits bool.splits)

lemma mkdirSync_recursive_contents:
  "mkdirSync_recursive fs p = Inr fs' \<Longrightarrow> file_contents fs' = file_contents fs"
  by (auto simp: mkdirSync_recursive_def split: prod.splits dest: mkdirp_from_contents)

text \<open>A successful rename loses at most the entry it replaces, and nothing when it is a no-op.\<close>

lemma renameSync_contents:
  assumes wf: "fs_wf fs" and ok: "renameSync fs src dst = Inr fs'"
  shows "file_contents fs = file_contents fs' +
           (if path_key src = path_key dst then {#} else entry_files fs (path_key dst))"
  using wf ok
proof (cases rule: renameSync_InrE)
  case same
  then show ?thesis by simp
next
  case moved
  have "distinct (map fst fs)" using wf by (simp add: fs_wf_def)
  then show ?thesis
    using moved(1,7) file_contents_delete [of fs "path_key dst"]
    by (simp add: rename_entries_def file_contents_map_keys)
qed

end
