(* ===== verification/Mover.thy ===== *)
theory Mover
  imports Classifier Directory_Ensurer File_Contents
begin

text \<open>
  \<open>organizeFile\<close> (lines 38--66 of \<open>src/index.js\<close>), the specification's Mover: an
  empty path is ignored; the extension (without its dot) is classified; an unclassified
  file stays where it is; otherwise the folder \<open>root/folder\<close> is ensured and the file is
  renamed into it under its own base name. A failed rename is caught and logged on
  standard error; an exception of \<open>createDirectoryIfNeeded\<close> is not caught and leaves
  the function as its \<open>Inl\<close> result. The watched root is a parameter (the constant
  \<open>pathToWatch\<close> of line 7 in the program).
\<close>

definition organizeFile :: "string \<Rightarrow> string \<Rightarrow> 'a io_state_scheme \<Rightarrow> fs_error + 'a io_state_scheme" where
  "organizeFile root filePath st =
     (if filePath = [] then Inr st
      else
        let fileName = basename filePath;
            fileExtension = drop 1 (extname filePath)
        in (case getFolderNameBasedOnExtension fileExtension of
              None \<Rightarrow> Inr st
            | Some folderName \<Rightarrow>
                let targetDir = join root folderName
                in (case createDirectoryIfNeeded targetDir st of
                      Inl e \<Rightarrow> Inl e
                    | Inr st' \<Rightarrow>
                        let destPath = join targetDir fileName
                        in (case renameSync (fs st') filePath destPath of
                              Inr fs' \<Rightarrow>
                                Inr (st'\<lparr>fs := fs',
                                         log := log st' @ [info (''Moved: '' @ filePath @ '' -> '' @ destPath)]\<rparr>)
                            | Inl err \<Rightarrow>
                                Inr (st'\<lparr>log := log st' @
                                         [Log Stderr True (''Error moving file '' @ filePath @ '': '' @ error_code err)]\<rparr>)))))"

section \<open>Lemmas\<close>

lemma path_normalize_not_Nil: "path_normalize p \<noteq> []"
  by (simp add: path_normalize_def Let_def)

lemma join_not_Nil: "join a b \<noteq> []"
  by (simp add: join_def Let_def path_normalize_not_Nil)

lemma organizeFile_classified:
  assumes "p \<noteq> []" and "getFolderNameBasedOnExtension (drop 1 (extname p)) = Some f"
  shows "organizeFile root p st =
    (case createDirectoryIfNeeded (join root f) st of
       Inl e \<Rightarrow> Inl e
     | Inr st1 \<Rightarrow>
         (case renameSync (fs st1) p (join (join root f) (basename p)) of
            Inr fs' \<Rightarrow> Inr (st1\<lparr>fs := fs',
                 log := log st1 @ [info (''Moved: '' @ p @ '' -> '' @ join (join root f) (basename p))]\<rparr>)
          | Inl err \<Rightarrow> Inr (st1\<lparr>log := log st1 @
                 [Log Stderr True (''Error moving file '' @ p @ '': '' @ error_code err)]\<rparr>)))"
  unfolding organizeFile_def Let_def using assms by simp

text \<open>What classification tells about the paths \<open>organizeFile\<close> builds.\<close>

lemma classified_paths:
  assumes root: "root \<noteq> []" and cls: "getFolderNameBasedOnExtension (drop 1 (extname p)) = Some f"
  shows "plain_segment (basename p)" and "plain_segment f" and "f \<noteq> ''/''"
    and "path_key (join root f) = path_key root @ [f]"
    and "path_key (join (join root f) (basename p)) = path_key root @ [f, basename p]"
    and "\<exists>ks. path_key p = ks @ [basename p]" and "basename p \<noteq> f" and "p \<noteq> []"
proof -
  have ext: "extname p \<noteq> []"
    using cls getFolderNameBasedOnExtension_Nil by (cases "extname p") auto
  then show "p \<noteq> []" by (auto simp: extname_def basename_def)
  from ext have b: "plain_segment (basename p)" and dot: "CHR ''.'' \<in> set (basename p)"
    by (rule extname_plain_basename)+
  from cls have f: "plain_segment f \<and> CHR ''.'' \<notin> set f"
    by (intro folder_name_plain getFolderNameBasedOnExtension_folder)
  show "plain_segment (basename p)" by (rule b)
  show "plain_segment f" using f by simp
  then show "f \<noteq> ''/''" by (auto simp: plain_segment_def)
  show td: "path_key (join root f) = path_key root @ [f]"
    using root f by (simp add: path_key_join)
  show "path_key (join (join root f) (basename p)) = path_key root @ [f, basename p]"
    using td b join_not_Nil by (simp add: path_key_join)
  show "\<exists>ks. path_key p = ks @ [basename p]" using b by (rule path_key_basename)
  show "basename p \<noteq> f" using dot f by auto
qed

text \<open>The folder step of \<open>organizeFile\<close> when the watched root is a writable directory.\<close>

lemma ensure_target_dir:
  assumes wf: "fs_wf (fs st)" and rd: "map_of (fs st) rk = Some (Dir True)" and f: "f \<noteq> ''/''"
    and key: "path_key t = rk @ [f]"
    and tgt: "map_of (fs st) (rk @ [f]) \<in> {None, Some (Dir True)}"
  shows "\<exists>st1. createDirectoryIfNeeded t st = Inr st1 \<and> fs_wf (fs st1) \<and>
           map_of (fs st1) = (map_of (fs st))(rk @ [f] \<mapsto> Dir True) \<and>
           log st1 = log st @ (if map_of (fs st) (rk @ [f]) = None
                               then [info (''Created directory: '' @ t)] else []) \<and>
           io_state.more st1 = io_state.more st"
proof (cases "map_of (fs st) (rk @ [f]) = None")
  case True
  have "createDirectoryIfNeeded t st =
          Inr (st\<lparr>fs := AList.update (rk @ [f]) (Dir True) (fs st),
                  log := log st @ [info (''Created directory: '' @ t)]\<rparr>)"
    using createDirectoryIfNeeded_under_dir [OF wf rd f key True] by simp
  moreover have "fs_wf (AList.update (rk @ [f]) (Dir True) (fs st))"
    using wf rd True by (rule fs_wf_add_dir)
  ultimately show ?thesis using True by (simp add: update_conv')
next
  case False
  with tgt have dir: "map_of (fs st) (rk @ [f]) = Some (Dir True)" by simp
  then have "createDirectoryIfNeeded t st = Inr st"
    using key by (simp add: createDirectoryIfNeeded_exists existsSync_def)
  with wf dir show ?thesis by (auto simp: fun_upd_idem)
qed

text \<open>
  The move of a classified file into its folder, the destination being free or a file
  (which is replaced).
\<close>

lemma organizeFile_move_file:
  assumes wf: "fs_wf (fs st)" and root: "root \<noteq> []"
    and rd: "map_of (fs st) (path_key root) = Some (Dir True)"
    and cls: "getFolderNameBasedOnExtension (drop 1 (extname p)) = Some f"
    and src: "map_of (fs st) (path_key p) = Some (File c)"
    and sw: "writable_dir (fs st) (butlast (path_key p))"
    and tgt: "map_of (fs st) (path_key root @ [f]) \<in> {None, Some (Dir True)}"
    and dst: "map_of (fs st) (path_key root @ [f, basename p]) = None \<or>
              (\<exists>c'. map_of (fs st) (path_key root @ [f, basename p]) = Some (File c'))"
    and sd: "path_key p \<noteq> path_key root @ [f, basename p]"
  shows "\<exists>st'. organizeFile root p st = Inr st' \<and> fs_wf (fs st') \<and>
           map_of (fs st') = (map_of (fs st))(path_key root @ [f] \<mapsto> Dir True, path_key p := None,
                                              path_key root @ [f, basename p] \<mapsto> File c) \<and>
           log st' = log st @ (if map_of (fs st) (path_key root @ [f]) = None
                               then [info (''Created directory: '' @ join root f)] else []) @
                     [info (''Moved: '' @ p @ '' -> '' @ join (join root f) (basename p))] \<and>
           io_state.more st' = io_state.more st"
proof -
  let ?rk = "path_key root" and ?s = "path_key p" and ?t = "join root f"
  let ?dest = "join (join root f) (basename p)"
  note paths = classified_paths [OF root cls]
  have p_ne: "p \<noteq> []"
  proof
    assume "p = []"
    then have "is_root_key ?s" by (simp add: path_key_def is_absolute_def is_root_key_def)
    with fs_wf_root_dir [OF wf src] show False by simp
  qed
  obtain st1 where ens: "createDirectoryIfNeeded ?t st = Inr st1" and wf1: "fs_wf (fs st1)"
    and m1: "map_of (fs st1) = (map_of (fs st))(?rk @ [f] \<mapsto> Dir True)"
    and log1: "log st1 = log st @ (if map_of (fs st) (?rk @ [f]) = None
                                   then [info (''Created directory: '' @ ?t)] else [])"
    and more1: "io_state.more st1 = io_state.more st"
    using ensure_target_dir [OF wf rd paths(3) paths(4) tgt] by blast
  have s_t: "?s \<noteq> ?rk @ [f]" using src tgt by auto
  have d_t: "?rk @ [f, basename p] \<noteq> ?rk @ [f]" by simp
  have src1: "map_of (fs st1) ?s = Some (File c)" using src s_t by (simp add: m1)
  have sw1: "writable_dir (fs st1) (butlast ?s)"
    using sw by (simp add: writable_dir_def m1)
  have dst1: "map_of (fs st1) (path_key ?dest) = None \<or>
              (\<exists>c'. map_of (fs st1) (path_key ?dest) = Some (File c'))"
    using dst by (simp add: m1 paths(5))
  have d_root: "\<not> is_root_key (path_key ?dest)" by (simp add: paths(5) is_root_key_def)
  have "butlast (?rk @ [f, basename p]) = ?rk @ [f]" by (simp add: butlast_append)
  then have d_parent: "map_of (fs st1) (butlast (path_key ?dest)) = Some (Dir True)"
    by (simp add: paths(5) m1)
  have sd1: "?s \<noteq> path_key ?dest" using sd by (simp add: paths(5))
  have ren: "renameSync (fs st1) p ?dest = Inr (rename_entries ?s (path_key ?dest) (fs st1))"
    using wf1 src1 d_root d_parent sw1 sd1 dst1 by (rule renameSync_file)
  have m2: "map_of (rename_entries ?s (path_key ?dest) (fs st1)) =
            (map_of (fs st1))(?s := None, path_key ?dest \<mapsto> File c)"
    using wf1 src1 sd1 by (rule rename_entries_file)
  have wf2: "fs_wf (rename_entries ?s (path_key ?dest) (fs st1))"
    using wf1 src1 sd1 d_root d_parent dst1 by (rule fs_wf_rename_file)
  show ?thesis
    using organizeFile_classified [OF p_ne cls, of root st] ens ren m2 wf2 log1 more1
    by (simp add: m1 paths(5))
qed

lemma organizeFile_more:
  "organizeFile root p st = Inr st' \<Longrightarrow> io_state.more st' = io_state.more st"
  by (auto simp: organizeFile_def Let_def split: if_splits option.splits sum.splits
           dest!: createDirectoryIfNeeded_more)

lemma createDirectoryIfNeeded_contents:
  "createDirectoryIfNeeded t st = Inr st' \<Longrightarrow> file_contents (fs st') = file_contents (fs st)"
  by (erule createDirectoryIfNeeded_cases) (auto dest: mkdirSync_recursive_contents)

text \<open>What every run of \<open>organizeFile\<close> keeps: a well-formed tree, the earlier log.\<close>

lemma organizeFile_wf:
  assumes "fs_wf (fs st)" and "organizeFile root p st = Inr st'"
  shows "fs_wf (fs st')"
  using assms
  by (auto simp: organizeFile_def Let_def split: if_splits option.splits sum.splits
           intro: renameSync_wf [OF createDirectoryIfNeeded_wf] createDirectoryIfNeeded_wf)

lemma organizeFile_log:
  "organizeFile root p st = Inr st' \<Longrightarrow> prefix (log st) (log st')"
  by (auto simp: organizeFile_def Let_def split: if_splits option.splits sum.splits
           dest!: createDirectoryIfNeeded_log intro: prefix_order.trans)

text \<open>The only exception that leaves \<open>organizeFile\<close> is one of \<open>mkdirSync\<close>.\<close>

lemma organizeFile_error:
  "organizeFile root p st = Inl e \<Longrightarrow> \<exists>t. mkdirSync_recursive (fs st) t = Inl e"
  by (auto simp: organizeFile_def Let_def split: if_splits option.splits sum.splits
           dest!: createDirectoryIfNeeded_error)

text \<open>The destination of a classified file, and filing a file that is already there.\<close>

lemma destination_paths:
  assumes root: "root \<noteq> []" and cls: "getFolderNameBasedOnExtension (drop 1 (extname p)) = Some f"
  shows "basename (join (join root f) (basename p)) = basename p \<and>
         getFolderNameBasedOnExtension (drop 1 (extname (join (join root f) (basename p)))) = Some f \<and>
         path_key (join (join root f) (basename p)) = path_key root @ [f, basename p]"
proof -
  note paths = classified_paths [OF root cls]
  have bn: "basename (join (join root f) (basename p)) = basename p"
    using join_not_Nil paths(1) by (rule basename_join)
  then have "extname (join (join root f) (basename p)) = extname p" by (rule extname_same_basename)
  with bn cls paths(5) show ?thesis by simp
qed

lemma organizeFile_in_folder:
  assumes wf: "fs_wf (fs st)" and root: "root \<noteq> []"
    and cls: "getFolderNameBasedOnExtension (drop 1 (extname p)) = Some f"
    and at: "path_key p = path_key root @ [f, basename p]"
    and present: "map_of (fs st) (path_key p) = Some n"
  shows "organizeFile root p st =
           Inr (st\<lparr>log := log st @ [info (''Moved: '' @ p @ '' -> '' @ join (join root f) (basename p))]\<rparr>)"
proof -
  note paths = classified_paths [OF root cls]
  have nr: "\<not> is_root_key (path_key p)" by (simp add: at is_root_key_def)
  have bl: "butlast (path_key p) = path_key root @ [f]" by (simp add: at butlast_append)
  obtain w where dir: "map_of (fs st) (path_key root @ [f]) = Some (Dir w)"
    using fs_wf_parent [OF wf present nr] bl by auto
  then have ens: "createDirectoryIfNeeded (join root f) st = Inr st"
    by (simp add: createDirectoryIfNeeded_exists existsSync_def paths(4))
  have same: "path_key p = path_key (join (join root f) (basename p))" by (simp add: at paths(5))
  have "renameSync (fs st) p (join (join root f) (basename p)) = Inr (fs st)"
    using present same nr dir bl by (intro renameSync_same) (simp_all add: paths(5) butlast_append)
  with organizeFile_classified [OF paths(8) cls, of root st] ens show ?thesis by simp
qed

section \<open>Properties\<close>

text \<open>
  C1. A classified file is filed by extension: when the watched root is a writable
  directory, the file's directory is writable, the category folder is absent or a writable
  directory, and nothing is yet at \<open>root/folder/name\<close>, then \<open>organizeFile\<close> returns
  normally, the folder exists, the file's contents sit at \<open>root/folder/name\<close> and no longer
  at the old path, nothing else changes, and the log gains "Created directory" (if the
  folder was created) and "Moved".
\<close>

theorem organizeFile_files_by_extension:
  assumes wf: "fs_wf (fs st)" and root: "root \<noteq> []"
    and rd: "map_of (fs st) (path_key root) = Some (Dir True)"
    and cls: "getFolderNameBasedOnExtension (drop 1 (extname p)) = Some f"
    and src: "map_of (fs st) (path_key p) = Some (File c)"
    and sw: "writable_dir (fs st) (butlast (path_key p))"
    and tgt: "map_of (fs st) (path_key root @ [f]) \<in> {None, Some (Dir True)}"
    and free: "map_of (fs st) (path_key root @ [f, basename p]) = None"
  shows "\<exists>st'. organizeFile root p st = Inr st' \<and>
           map_of (fs st') = (map_of (fs st))(path_key root @ [f] \<mapsto> Dir True, path_key p := None,
                                              path_key root @ [f, basename p] \<mapsto> File c) \<and>
           log st' = log st @ (if map_of (fs st) (path_key root @ [f]) = None
                               then [info (''Created directory: '' @ join root f)] else []) @
                     [info (''Moved: '' @ p @ '' -> '' @ join (join root f) (basename p))]"
proof -
  have "path_key p \<noteq> path_key root @ [f, basename p]" using src free by auto
  with organizeFile_move_file [OF wf root rd cls src sw tgt] free show ?thesis by blast
qed

theorem organizeFile_files_by_extension_witness:
  "\<exists>st'. organizeFile ''/w'' ''/w/report.PDF''
           \<lparr>fs = [([''/''], Dir True), ([''/'', ''w''], Dir True), ([''/'', ''w'', ''report.PDF''], File 1)],
            log = []\<rparr> = Inr st' \<and>
         map_of (fs st') [''/'', ''w'', ''doc'', ''report.PDF''] = Some (File 1) \<and>
         map_of (fs st') [''/'', ''w'', ''report.PDF''] = None"
proof -
  let ?st = "\<lparr>fs = [([''/''], Dir True), ([''/'', ''w''], Dir True), ([''/'', ''w'', ''report.PDF''], File 1)],
              log = []\<rparr>"
  have wf: "fs_wf (fs ?st)" by code_simp
  have root: "''/w'' \<noteq> []" by simp
  have rk: "path_key ''/w'' = [''/'', ''w'']" by code_simp
  have pk: "path_key ''/w/report.PDF'' = [''/'', ''w'', ''report.PDF'']" by code_simp
  have bn: "basename ''/w/report.PDF'' = ''report.PDF''" by code_simp
  have cls: "getFolderNameBasedOnExtension (drop 1 (extname ''/w/report.PDF'')) = Some ''doc''"
    by code_simp
  have rd: "map_of (fs ?st) (path_key ''/w'') = Some (Dir True)" by (simp add: rk)
  have src: "map_of (fs ?st) (path_key ''/w/report.PDF'') = Some (File 1)" by (simp add: pk)
  have sw: "writable_dir (fs ?st) (butlast (path_key ''/w/report.PDF''))"
    by (simp add: pk writable_dir_def)
  have tgt: "map_of (fs ?st) (path_key ''/w'' @ [''doc'']) \<in> {None, Some (Dir True)}"
    by (simp add: rk)
  have free: "map_of (fs ?st) (path_key ''/w'' @ [''doc'', basename ''/w/report.PDF'']) = None"
    by (simp add: rk bn)
  from organizeFile_files_by_extension [OF wf root rd cls src sw tgt free] show ?thesis
    by (auto simp: rk pk bn)
qed

text \<open>
  C3. Unclassified files are not filed into an \<open>others\<close> folder, whatever the comments
  at lines 33 and 52 say ("Any other files go into the 'others' folder", "image/ or doc/
  or others/"):
  \<open>getFolderNameBasedOnExtension\<close> returns \<open>null\<close> and \<open>organizeFile\<close> returns at
  line 48 with the state unchanged, so no \<open>others\<close> directory is created, nothing is moved
  and nothing is logged. This is what the specification asks (section 4, step 4: the file
  remains at the watched root); the comments are the part that disagrees.
\<close>

theorem organizeFile_unclassified_not_to_others:
  assumes "getFolderNameBasedOnExtension (drop 1 (extname p)) = None"
  shows "organizeFile root p st = Inr st"
  using assms by (simp add: organizeFile_def Let_def)

theorem organizeFile_unclassified_not_to_others_witness:
  "organizeFile ''/w'' ''/w/notes.xyz''
     \<lparr>fs = [([''/''], Dir True), ([''/'', ''w''], Dir True), ([''/'', ''w'', ''notes.xyz''], File 3)], log = []\<rparr> =
   Inr \<lparr>fs = [([''/''], Dir True), ([''/'', ''w''], Dir True), ([''/'', ''w'', ''notes.xyz''], File 3)], log = []\<rparr> \<and>
   map_of [([''/''], Dir True), ([''/'', ''w''], Dir True), ([''/'', ''w'', ''notes.xyz''], File 3)]
     (path_key (join ''/w'' ''others'')) = None"
proof -
  have "getFolderNameBasedOnExtension (drop 1 (extname ''/w/notes.xyz'')) = None" by code_simp
  then have "organizeFile ''/w'' ''/w/notes.xyz''
     \<lparr>fs = [([''/''], Dir True), ([''/'', ''w''], Dir True), ([''/'', ''w'', ''notes.xyz''], File 3)], log = []\<rparr> =
   Inr \<lparr>fs = [([''/''], Dir True), ([''/'', ''w''], Dir True), ([''/'', ''w'', ''notes.xyz''], File 3)], log = []\<rparr>"
    by (rule organizeFile_unclassified_not_to_others)
  moreover have "map_of [([''/''], Dir True), ([''/'', ''w''], Dir True), ([''/'', ''w'', ''notes.xyz''], File 3)]
     (path_key (join ''/w'' ''others'')) = None" by code_simp
  ultimately show ?thesis by simp
qed

text \<open>
  C4. A move whose source has vanished (deleted between the event and its handling) is a
  logged error, not a crash: \<open>organizeFile\<close> returns normally, the only change to the file
  system is the category folder, and the last log line is the \<open>ENOENT\<close> error on
  standard error.
\<close>

theorem organizeFile_vanished_source:
  assumes wf: "fs_wf (fs st)" and root: "root \<noteq> []"
    and rd: "map_of (fs st) (path_key root) = Some (Dir True)"
    and cls: "getFolderNameBasedOnExtension (drop 1 (extname p)) = Some f"
    and gone: "map_of (fs st) (path_key p) = None"
    and tgt: "map_of (fs st) (path_key root @ [f]) \<in> {None, Some (Dir True)}"
  shows "\<exists>st'. organizeFile root p st = Inr st' \<and>
           map_of (fs st') = (map_of (fs st))(path_key root @ [f] \<mapsto> Dir True) \<and>
           log st' = log st @ (if map_of (fs st) (path_key root @ [f]) = None
                               then [info (''Created directory: '' @ join root f)] else []) @
                     [Log Stderr True (''Error moving file '' @ p @ '': ENOENT'')]"
proof -
  note paths = classified_paths [OF root cls]
  obtain st1 where ens: "createDirectoryIfNeeded (join root f) st = Inr st1"
    and m1: "map_of (fs st1) = (map_of (fs st))(path_key root @ [f] \<mapsto> Dir True)"
    and log1: "log st1 = log st @ (if map_of (fs st) (path_key root @ [f]) = None
                                   then [info (''Created directory: '' @ join root f)] else [])"
    using ensure_target_dir [OF wf rd paths(3) paths(4) tgt] by blast
  from paths(6) obtain ks where ks: "path_key p = ks @ [basename p]" by blast
  with paths(7) have "path_key p \<noteq> path_key root @ [f]" by auto
  with gone have "map_of (fs st1) (path_key p) = None" by (simp add: m1)
  then have "renameSync (fs st1) p (join (join root f) (basename p)) = Inl ENOENT"
    by (rule renameSync_missing)
  with organizeFile_classified [OF paths(8) cls, of root st] ens m1 log1 show ?thesis by simp
qed

theorem organizeFile_vanished_source_witness:
  "\<exists>st'. organizeFile ''/w'' ''/w/clip.mp4'' \<lparr>fs = [([''/''], Dir True), ([''/'', ''w''], Dir True)], log = []\<rparr>
     = Inr st' \<and> last (log st') = Log Stderr True (''Error moving file /w/clip.mp4: ENOENT'')"
proof -
  let ?st = "\<lparr>fs = [([''/''], Dir True), ([''/'', ''w''], Dir True)], log = []\<rparr>"
  have wf: "fs_wf (fs ?st)" by code_simp
  have rk: "path_key ''/w'' = [''/'', ''w'']" by code_simp
  have pk: "path_key ''/w/clip.mp4'' = [''/'', ''w'', ''clip.mp4'']" by code_simp
  have cls: "getFolderNameBasedOnExtension (drop 1 (extname ''/w/clip.mp4'')) = Some ''video''"
    by code_simp
  have rd: "map_of (fs ?st) (path_key ''/w'') = Some (Dir True)" by (simp add: rk)
  have gone: "map_of (fs ?st) (path_key ''/w/clip.mp4'') = None" by (simp add: pk)
  have tgt: "map_of (fs ?st) (path_key ''/w'' @ [''video'']) \<in> {None, Some (Dir True)}"
    by (simp add: rk)
  from organizeFile_vanished_source [OF wf _ rd cls gone tgt] show ?thesis by auto
qed

text \<open>
  C11. Filing is idempotent: a file that already sits in the folder of its category (as
  after its own move, when the watcher reports it again under its new path) is renamed onto
  itself, which changes nothing; only the "Moved" line is logged.
\<close>

theorem organizeFile_refile_noop:
  assumes wf: "fs_wf (fs st)" and root: "root \<noteq> []"
    and cls: "getFolderNameBasedOnExtension (drop 1 (extname p)) = Some f"
    and at: "path_key p = path_key root @ [f, basename p]"
    and present: "map_of (fs st) (path_key p) = Some n"
  shows "organizeFile root p st =
           Inr (st\<lparr>log := log st @ [info (''Moved: '' @ p @ '' -> '' @ join (join root f) (basename p))]\<rparr>)"
  using organizeFile_in_folder [OF wf root cls at present] .

theorem organizeFile_refile_noop_witness:
  "organizeFile ''/w'' ''/w/doc/report.PDF''
     \<lparr>fs = [([''/''], Dir True), ([''/'', ''w''], Dir True), ([''/'', ''w'', ''doc''], Dir True),
            ([''/'', ''w'', ''doc'', ''report.PDF''], File 1)], log = []\<rparr> =
   Inr \<lparr>fs = [([''/''], Dir True), ([''/'', ''w''], Dir True), ([''/'', ''w'', ''doc''], Dir True),
              ([''/'', ''w'', ''doc'', ''report.PDF''], File 1)],
        log = [info (''Moved: /w/doc/report.PDF -> '' @ join (join ''/w'' ''doc'') (basename ''/w/doc/report.PDF''))]\<rparr>"
proof -
  let ?st = "\<lparr>fs = [([''/''], Dir True), ([''/'', ''w''], Dir True), ([''/'', ''w'', ''doc''], Dir True),
            ([''/'', ''w'', ''doc'', ''report.PDF''], File 1)], log = []\<rparr>"
  have wf: "fs_wf (fs ?st)" by code_simp
  have cls: "getFolderNameBasedOnExtension (drop 1 (extname ''/w/doc/report.PDF'')) = Some ''doc''"
    by code_simp
  have at: "path_key ''/w/doc/report.PDF'' = path_key ''/w'' @ [''doc'', basename ''/w/doc/report.PDF'']"
    by code_simp
  have present: "map_of (fs ?st) (path_key ''/w/doc/report.PDF'') = Some (File 1)" by code_simp
  from organizeFile_refile_noop [OF wf _ cls at present] show ?thesis by simp
qed

text \<open>
  C13. A name collision destroys data: when \<open>root/folder/name\<close> already holds another
  file, the move replaces it, and contents that existed only there exist nowhere
  afterwards. The code checks nothing before \<open>renameSync\<close>, which overwrites.
\<close>

theorem organizeFile_overwrites_destination:
  assumes wf: "fs_wf (fs st)" and root: "root \<noteq> []"
    and rd: "map_of (fs st) (path_key root) = Some (Dir True)"
    and cls: "getFolderNameBasedOnExtension (drop 1 (extname p)) = Some f"
    and src: "map_of (fs st) (path_key p) = Some (File c)"
    and sw: "writable_dir (fs st) (butlast (path_key p))"
    and tgt: "map_of (fs st) (path_key root @ [f]) = Some (Dir True)"
    and occupied: "map_of (fs st) (path_key root @ [f, basename p]) = Some (File c')"
    and only: "\<forall>k. map_of (fs st) k = Some (File c') \<longrightarrow> k = path_key root @ [f, basename p]"
    and differ: "c' \<noteq> c"
  shows "\<exists>st'. organizeFile root p st = Inr st' \<and>
           map_of (fs st') (path_key root @ [f, basename p]) = Some (File c) \<and>
           (\<forall>k. map_of (fs st') k \<noteq> Some (File c'))"
proof -
  have sd: "path_key p \<noteq> path_key root @ [f, basename p]" using src occupied differ by auto
  have tgt': "map_of (fs st) (path_key root @ [f]) \<in> {None, Some (Dir True)}" using tgt by simp
  obtain st' where org: "organizeFile root p st = Inr st'"
    and m: "map_of (fs st') = (map_of (fs st))(path_key root @ [f] \<mapsto> Dir True, path_key p := None,
                                               path_key root @ [f, basename p] \<mapsto> File c)"
    using organizeFile_move_file [OF wf root rd cls src sw tgt' _ sd] occupied by blast
  have "map_of (fs st') k \<noteq> Some (File c')" for k
    using only differ by (auto simp: m)
  with org m show ?thesis by auto
qed

theorem organizeFile_overwrites_destination_witness:
  "\<exists>st'. organizeFile ''/w'' ''/w/report.pdf''
           \<lparr>fs = [([''/''], Dir True), ([''/'', ''w''], Dir True), ([''/'', ''w'', ''report.pdf''], File 1),
                  ([''/'', ''w'', ''doc''], Dir True), ([''/'', ''w'', ''doc'', ''report.pdf''], File 2)],
            log = []\<rparr> = Inr st' \<and>
         (\<forall>k. map_of (fs st') k \<noteq> Some (File 2))"
proof -
  let ?st = "\<lparr>fs = [([''/''], Dir True), ([''/'', ''w''], Dir True), ([''/'', ''w'', ''report.pdf''], File 1),
                  ([''/'', ''w'', ''doc''], Dir True), ([''/'', ''w'', ''doc'', ''report.pdf''], File 2)],
            log = []\<rparr>"
  have wf: "fs_wf (fs ?st)" by code_simp
  have rk: "path_key ''/w'' = [''/'', ''w'']" by code_simp
  have pk: "path_key ''/w/report.pdf'' = [''/'', ''w'', ''report.pdf'']" by code_simp
  have bn: "basename ''/w/report.pdf'' = ''report.pdf''" by code_simp
  have cls: "getFolderNameBasedOnExtension (drop 1 (extname ''/w/report.pdf'')) = Some ''doc''"
    by code_simp
  have rd: "map_of (fs ?st) (path_key ''/w'') = Some (Dir True)" by (simp add: rk)
  have src: "map_of (fs ?st) (path_key ''/w/report.pdf'') = Some (File 1)" by (simp add: pk)
  have sw: "writable_dir (fs ?st) (butlast (path_key ''/w/report.pdf''))"
    by (simp add: pk writable_dir_def)
  have tgt: "map_of (fs ?st) (path_key ''/w'' @ [''doc'']) = Some (Dir True)" by (simp add: rk)
  have occ: "map_of (fs ?st) (path_key ''/w'' @ [''doc'', basename ''/w/report.pdf'']) = Some (File 2)"
    by (simp add: rk bn)
  have only: "\<forall>k. map_of (fs ?st) k = Some (File 2) \<longrightarrow>
                  k = path_key ''/w'' @ [''doc'', basename ''/w/report.pdf'']"
    by (simp add: rk bn)
  from organizeFile_overwrites_destination [OF wf _ rd cls src sw tgt occ only] show ?thesis by auto
qed


text \<open>
  C19. \<open>organizeFile\<close> loses no data except by replacing: the contents of the files
  after it are those before it less at most one file, and a lost file is the one that
  sat at \<open>root/folder/name\<close>, a path other than the moved file's. Every other branch
  (unclassified, rename error, directory moved, move onto itself) keeps every file.
\<close>

theorem organizeFile_loses_only_replaced:
  assumes wf: "fs_wf (fs st)" and ok: "organizeFile root p st = Inr st'"
  shows "\<exists>lost. file_contents (fs st) = file_contents (fs st') + lost \<and> size lost \<le> 1 \<and>
           (\<forall>c. c \<in># lost \<longrightarrow> (\<exists>f. getFolderNameBasedOnExtension (drop 1 (extname p)) = Some f \<and>
               path_key p \<noteq> path_key (join (join root f) (basename p)) \<and>
               map_of (fs st) (path_key (join (join root f) (basename p))) = Some (File c)))"
proof (cases "p \<noteq> [] \<and> getFolderNameBasedOnExtension (drop 1 (extname p)) \<noteq> None")
  case False
  then consider "p = []" | "getFolderNameBasedOnExtension (drop 1 (extname p)) = None" by blast
  then have "organizeFile root p st = Inr st" by cases (simp_all add: organizeFile_def Let_def)
  with ok have "st' = st" by simp
  then show ?thesis by (intro exI [of _ "{#}"]) simp
next
  case True
  then obtain f where p: "p \<noteq> []" and cls: "getFolderNameBasedOnExtension (drop 1 (extname p)) = Some f"
    by blast
  let ?dest = "join (join root f) (basename p)"
  from ok obtain st1 where ens: "createDirectoryIfNeeded (join root f) st = Inr st1"
    by (auto simp: organizeFile_classified [OF p cls] split: sum.splits)
  have c1: "file_contents (fs st1) = file_contents (fs st)"
    using ens by (rule createDirectoryIfNeeded_contents)
  have same_file: "map_of (fs st1) k = Some (File c) \<Longrightarrow> map_of (fs st) k = Some (File c)" for k c
    using createDirectoryIfNeeded_grows [OF ens, of k] by auto
  have wf1: "fs_wf (fs st1)" using wf ens by (rule createDirectoryIfNeeded_wf)
  show ?thesis
  proof (cases "renameSync (fs st1) p ?dest")
    case (Inl err)
    with ok ens have "fs st' = fs st1" by (auto simp: organizeFile_classified [OF p cls])
    with c1 show ?thesis by (intro exI [of _ "{#}"]) simp
  next
    case (Inr fs')
    with ok ens have fs': "fs st' = fs'" by (auto simp: organizeFile_classified [OF p cls])
    let ?lost = "if path_key p = path_key ?dest then {#} else entry_files (fs st1) (path_key ?dest)"
    have eq: "file_contents (fs st) = file_contents (fs st') + ?lost"
      using renameSync_contents [OF wf1 Inr] c1 fs' by simp
    have "size ?lost \<le> 1" using size_entry_files by simp
    moreover have "path_key p \<noteq> path_key ?dest \<and> map_of (fs st) (path_key ?dest) = Some (File c)"
      if "c \<in># ?lost" for c
    proof -
      from that have ne: "path_key p \<noteq> path_key ?dest" by (auto split: if_splits)
      with that obtain n where "map_of (fs st1) (path_key ?dest) = Some n" and "c \<in># node_files n"
        by (auto simp: entry_files_def split: option.splits)
      then have "map_of (fs st1) (path_key ?dest) = Some (File c)" by (cases n) auto
      with ne same_file show ?thesis by blast
    qed
    ultimately show ?thesis using eq cls by blast
  qed
qed

theorem organizeFile_loses_only_replaced_witness:
  "\<exists>lost. file_contents [([''/''], Dir True), ([''/'', ''w''], Dir True), ([''/'', ''w'', ''a.pdf''], File 1)] =
     file_contents [([''/''], Dir True), ([''/'', ''w''], Dir True), ([''/'', ''w'', ''doc'', ''a.pdf''], File 1),
                    ([''/'', ''w'', ''doc''], Dir True)] + lost \<and> size lost \<le> 1 \<and>
     (\<forall>c. c \<in># lost \<longrightarrow> (\<exists>f. getFolderNameBasedOnExtension (drop 1 (extname ''/w/a.pdf'')) = Some f \<and>
        path_key ''/w/a.pdf'' \<noteq> path_key (join (join ''/w'' f) (basename ''/w/a.pdf'')) \<and>
        map_of [([''/''], Dir True), ([''/'', ''w''], Dir True), ([''/'', ''w'', ''a.pdf''], File 1)]
          (path_key (join (join ''/w'' f) (basename ''/w/a.pdf''))) = Some (File c)))"
proof -
  let ?st = "\<lparr>fs = [([''/''], Dir True), ([''/'', ''w''], Dir True), ([''/'', ''w'', ''a.pdf''], File 1)],
              log = []\<rparr>"
  have wf: "fs_wf (fs ?st)" by code_simp
  have "organizeFile ''/w'' ''/w/a.pdf'' ?st =
        Inr \<lparr>fs = [([''/''], Dir True), ([''/'', ''w''], Dir True), ([''/'', ''w'', ''doc'', ''a.pdf''], File 1),
                   ([''/'', ''w'', ''doc''], Dir True)],
             log = [info ''Created directory: /w/doc'', info ''Moved: /w/a.pdf -> /w/doc/a.pdf'']\<rparr>"
    by code_simp
  from organizeFile_loses_only_replaced [OF wf this] show ?thesis by simp
qed


end
