(* ===== verification/Event_Deduper.thy ===== *)
theory Event_Deduper
  imports Directory_Ensurer
begin

text \<open>
  \<open>getExistingFiles\<close> (lines 69--76 of \<open>src/index.js\<close>), the specification's
  EventDeduper: one listing of the watched directory, each name joined to the directory.
  A failed listing is caught, logged on standard error (without the timestamp every other
  line carries) and gives the empty list. The result is computed once, before the watcher
  starts (line 79), and never changes.
\<close>

definition getExistingFiles :: "string \<Rightarrow> 'a io_state_scheme \<Rightarrow> string list \<times> 'a io_state_scheme" where
  "getExistingFiles dirPath st =
     (case readdirSync (fs st) dirPath of
        Inr files \<Rightarrow> (map (join dirPath) files, st)
      | Inl err \<Rightarrow>
          ([], st\<lparr>log := log st @ [Log Stderr False (''Error reading directory '' @ dirPath @ '': '' @ error_code err)]\<rparr>))"

section \<open>Properties\<close>

text \<open>
  C14. A failed listing of the watched directory (it is missing, or it is a file) is
  caught: the list of pre-existing files is empty, the file system is untouched, and one
  line naming the directory and the error code is written to standard error, the only
  line of the program without a timestamp.
\<close>

theorem getExistingFiles_unreadable:
  assumes "\<forall>w. map_of (fs st) (path_key d) \<noteq> Some (Dir w)"
  shows "getExistingFiles d st =
           ([], st\<lparr>log := log st @ [Log Stderr False (''Error reading directory '' @ d @ '': '' @
                  error_code (if map_of (fs st) (path_key d) = None then ENOENT else ENOTDIR))]\<rparr>)"
  using assms
  by (cases "map_of (fs st) (path_key d)" rule: option.exhaust)
     (auto simp: getExistingFiles_def readdirSync_def split: node.splits)

theorem getExistingFiles_unreadable_witness:
  "getExistingFiles ''/w'' \<lparr>fs = [([''/''], Dir True)], log = []\<rparr> =
     ([], \<lparr>fs = [([''/''], Dir True)], log = [Log Stderr False ''Error reading directory /w: ENOENT'']\<rparr>)"
proof -
  have k: "path_key ''/w'' = [''/'', ''w'']" by code_simp
  have "\<forall>w. map_of (fs \<lparr>fs = [([''/''], Dir True)], log = []\<rparr>) (path_key ''/w'') \<noteq> Some (Dir w)"
    by (simp add: k)
  from getExistingFiles_unreadable [OF this] show ?thesis by (simp add: k)
qed

end
