(* ===== verification/Watch_Controller.thy ===== *)
theory Watch_Controller
  imports Mover Event_Deduper
begin

text \<open>
  The watcher of \<open>src/index.js\<close> (lines 78--118), the specification's WatchController.
  Chokidar, the watching library, is the environment: it delivers a stream of events, of
  which the model keeps the kinds the program listens to. The program's state is the
  handler state with the watched root and the list of files present at start. Each
  listener is one equation of \<open>on_event\<close>; \<open>run\<close> delivers the events one after the
  other, as Node's single thread does, and stops at an uncaught exception (the process
  dies). The \<open>ignored\<close> option (line 84) is the regular expression
  \<open>/node_modules|\.git/\<close>, which chokidar tests against the whole path.
\<close>

section \<open>State and events\<close>

record watcher = io_state +
  root :: string
  existingFiles :: "string list"

datatype event =
    Add string
  | Change string
  | Unlink string
  | AddDir string
  | UnlinkDir string
  | WatchError string
  | Ready

primrec event_path :: "event \<Rightarrow> string option" where
  "event_path (Add p) = Some p"
| "event_path (Change p) = Some p"
| "event_path (Unlink p) = Some p"
| "event_path (AddDir p) = Some p"
| "event_path (UnlinkDir p) = Some p"
| "event_path (WatchError e) = None"
| "event_path Ready = None"

section \<open>Configuration\<close>

definition pathToWatch :: string where
  "pathToWatch = ''C:/Users/ASUS/Documents/Mahesh/FileOrginzer/''"

text \<open>
  The options object of \<open>watch(pathToWatch, {...})\<close>. Of its fields only \<open>ignored\<close>
  changes which events reach the listeners in this model; \<open>persistent\<close>,
  \<open>ignoreInitial\<close> (no events for the entries found by chokidar's first scan) and
  \<open>awaitWriteFinish\<close> (events held back until a file's size is stable for
  \<open>stabilityThreshold\<close> ms, polled every \<open>pollInterval\<close> ms) concern when chokidar
  emits, and the model's event stream is what it emits after that. The initial scan and
  \<open>ignoreInitial\<close> are modelled in \<open>Initial_Scan\<close>, the \<open>awaitWriteFinish\<close> poll in
  \<open>Chokidar\<close>.
\<close>

definition ignored :: "string \<Rightarrow> bool" where
  "ignored p \<longleftrightarrow> sublist ''node_modules'' p \<or> sublist ''.git'' p"

record watch_options =
  persistent :: bool
  ignored_paths :: "string \<Rightarrow> bool"
  ignoreInitial :: bool
  stabilityThreshold :: nat
  pollInterval :: nat

definition watcherOptions :: watch_options where
  "watcherOptions =
     \<lparr>persistent = True, ignored_paths = ignored, ignoreInitial = True,
      stabilityThreshold = 2000, pollInterval = 100\<rparr>"

text \<open>Chokidar drops every event whose path the \<open>ignored\<close> matcher accepts.\<close>

definition delivered :: "watch_options \<Rightarrow> event list \<Rightarrow> event list" where
  "delivered opts es =
     filter (\<lambda>e. case event_path e of Some p \<Rightarrow> \<not> ignored_paths opts p | None \<Rightarrow> True) es"

section \<open>Listeners\<close>

text \<open>One definition per \<open>.on(...)\<close> listener, in the order of lines 94--116.\<close>

definition onAdd :: "watcher \<Rightarrow> string \<Rightarrow> fs_error + watcher" where
  "onAdd st path =
     (if path \<notin> set (existingFiles st)
      then organizeFile (root st) path (st\<lparr>log := log st @ [info (''File added: '' @ path)]\<rparr>)
      else Inr st)"

definition onChange :: "watcher \<Rightarrow> string \<Rightarrow> fs_error + watcher" where
  "onChange st path =
     organizeFile (root st) path (st\<lparr>log := log st @ [info (''File changed: '' @ path)]\<rparr>)"

definition onUnlink :: "watcher \<Rightarrow> string \<Rightarrow> watcher" where
  "onUnlink st path = st\<lparr>log := log st @ [info (''File removed: '' @ path)]\<rparr>"

definition onAddDir :: "watcher \<Rightarrow> string \<Rightarrow> watcher" where
  "onAddDir st path = st\<lparr>log := log st @ [info (''Directory added: '' @ path)]\<rparr>"

definition onUnlinkDir :: "watcher \<Rightarrow> string \<Rightarrow> watcher" where
  "onUnlinkDir st path = st\<lparr>log := log st @ [info (''Directory removed: '' @ path)]\<rparr>"

definition onError :: "watcher \<Rightarrow> string \<Rightarrow> watcher" where
  "onError st error = st\<lparr>log := log st @ [Log Stderr True (''Watcher error: '' @ error)]\<rparr>"

definition onReady :: "watcher \<Rightarrow> watcher" where
  "onReady st = st\<lparr>log := log st @ [info (''Watcher is now ready to detect changes in '' @ root st)]\<rparr>"

primrec on_event :: "watcher \<Rightarrow> event \<Rightarrow> fs_error + watcher" where
  "on_event st (Add p) = onAdd st p"
| "on_event st (Change p) = onChange st p"
| "on_event st (Unlink p) = Inr (onUnlink st p)"
| "on_event st (AddDir p) = Inr (onAddDir st p)"
| "on_event st (UnlinkDir p) = Inr (onUnlinkDir st p)"
| "on_event st (WatchError e) = Inr (onError st e)"
| "on_event st Ready = Inr (onReady st)"

fun run :: "watcher \<Rightarrow> event list \<Rightarrow> fs_error + watcher" where
  "run st [] = Inr st"
| "run st (e # es) = (case on_event st e of Inl err \<Rightarrow> Inl err | Inr st' \<Rightarrow> run st' es)"

section \<open>Start-up\<close>

text \<open>
  Lines 79--90 in order: the listing, then the watcher. The line announcing the watch
  (118) is written after the listeners are attached, before any event.
\<close>

text \<open>Line 118: the line printed once the listeners are registered.\<close>

definition watching_line :: "string \<Rightarrow> log_line" where
  "watching_line dirPath = info (''Watching file system activity in '' @ dirPath)"

definition startup :: "string \<Rightarrow> fsys \<Rightarrow> watcher" where
  "startup dirPath fs0 =
     (case getExistingFiles dirPath \<lparr>fs = fs0, log = []\<rparr> of
        (existing, st) \<Rightarrow>
          \<lparr>fs = fs st, log = log st @ [watching_line dirPath],
           root = dirPath, existingFiles = existing\<rparr>)"

definition main :: "fsys \<Rightarrow> event list \<Rightarrow> fs_error + watcher" where
  "main fs0 events = run (startup pathToWatch fs0) (delivered watcherOptions events)"

section \<open>Lemmas\<close>

lemmas listener_defs =
  onAdd_def onChange_def onUnlink_def onAddDir_def onUnlinkDir_def onError_def onReady_def


lemma watcher_more_eq:
  "io_state.more (st' :: watcher) = io_state.more st \<Longrightarrow>
   root st' = root st \<and> existingFiles st' = existingFiles st"
  by (cases st, cases st') simp

lemma on_event_config:
  "on_event st e = Inr st' \<Longrightarrow> root st' = root st \<and> existingFiles st' = existingFiles st"
  by (cases e) (auto simp: listener_defs split: if_splits dest!: organizeFile_more watcher_more_eq)


lemma on_event_wf: "fs_wf (fs st) \<Longrightarrow> on_event st e = Inr st' \<Longrightarrow> fs_wf (fs st')"
  by (cases e) (auto simp: listener_defs split: if_splits dest!: organizeFile_wf [rotated])

lemma on_event_log: "on_event st e = Inr st' \<Longrightarrow> prefix (log st) (log st')"
  by (cases e) (auto simp: listener_defs split: if_splits dest!: organizeFile_log
                     intro: prefix_order.trans [OF prefixI])

lemma on_event_error:
  "on_event st e = Inl err \<Longrightarrow> \<exists>t. mkdirSync_recursive (fs st) t = Inl err"
  by (cases e) (auto simp: listener_defs split: if_splits dest!: organizeFile_error)

section \<open>Properties\<close>

text \<open>
  C12. An exception of \<open>mkdirSync\<close> escapes the listener and ends the process: when
  the watched root is not writable and the category folder is missing, a \<open>change\<close>
  event on a classified file makes \<open>run\<close> stop with \<open>EACCES\<close>, and none of the events
  after it is handled. (The specification requires every error to be logged and
  swallowed; \<open>createDirectoryIfNeeded\<close> is called outside the \<open>try\<close> of
  \<open>organizeFile\<close>.)
\<close>

theorem run_mkdir_failure_crashes:
  assumes wf: "fs_wf (fs st)" and root: "root st \<noteq> []"
    and ro: "map_of (fs st) (path_key (root st)) = Some (Dir False)"
    and cls: "getFolderNameBasedOnExtension (drop 1 (extname p)) = Some f"
    and missing: "map_of (fs st) (path_key (root st) @ [f]) = None"
  shows "run st (Change p # es) = Inl EACCES"
proof -
  let ?st1 = "st\<lparr>log := log st @ [info (''File changed: '' @ p)]\<rparr>"
  note paths = classified_paths [OF root cls]
  have "createDirectoryIfNeeded (join (root st) f) ?st1 = Inl EACCES"
    using createDirectoryIfNeeded_under_dir [of ?st1 "path_key (root st)" False f "join (root st) f"]
      wf ro paths(3,4) missing by simp
  then have "organizeFile (root st) p ?st1 = Inl EACCES"
    using organizeFile_classified [OF paths(8) cls, of "root st" ?st1] by simp
  then show ?thesis by (simp add: onChange_def)
qed

theorem run_mkdir_failure_crashes_witness:
  "run \<lparr>fs = [([''/''], Dir True), ([''/'', ''w''], Dir False), ([''/'', ''w'', ''a.pdf''], File 1)],
        log = [], root = ''/w'', existingFiles = []\<rparr> [Change ''/w/a.pdf'', Ready] = Inl EACCES"
proof -
  let ?st = "\<lparr>fs = [([''/''], Dir True), ([''/'', ''w''], Dir False), ([''/'', ''w'', ''a.pdf''], File 1)],
        log = [], root = ''/w'', existingFiles = []\<rparr>"
  have wf: "fs_wf (fs ?st)" by code_simp
  have rk: "path_key ''/w'' = [''/'', ''w'']" by code_simp
  have ro: "map_of (fs ?st) (path_key (root ?st)) = Some (Dir False)" by (simp add: rk)
  have cls: "getFolderNameBasedOnExtension (drop 1 (extname ''/w/a.pdf'')) = Some ''doc''" by code_simp
  have missing: "map_of (fs ?st) (path_key (root ?st) @ [''doc'']) = None" by (simp add: rk)
  from run_mkdir_failure_crashes [OF wf _ ro cls missing] show ?thesis by simp
qed

text \<open>
  C15. Events other than \<open>add\<close> and \<open>change\<close> only log: \<open>unlink\<close>, \<open>addDir\<close>,
  \<open>unlinkDir\<close>, \<open>error\<close> and \<open>ready\<close> leave the file system, the root and the list of
  pre-existing files as they are and append exactly one line to the log.
\<close>

theorem on_event_passive:
  assumes "\<forall>p. e \<noteq> Add p \<and> e \<noteq> Change p"
  shows "\<exists>l. on_event st e = Inr (st\<lparr>log := log st @ [l]\<rparr>)"
  using assms
  by (cases e) (auto simp: onUnlink_def onAddDir_def onUnlinkDir_def onError_def onReady_def)

theorem on_event_passive_witness:
  "\<exists>l. on_event \<lparr>fs = [], log = [], root = ''/w'', existingFiles = []\<rparr> Ready =
       Inr \<lparr>fs = [], log = [l], root = ''/w'', existingFiles = []\<rparr>"
proof -
  have "\<forall>p. Ready \<noteq> Add p \<and> Ready \<noteq> Change p" by simp
  from on_event_passive [OF this, of "\<lparr>fs = [], log = [], root = ''/w'', existingFiles = []\<rparr>"]
  show ?thesis by simp
qed

text \<open>
  C16. The list of pre-existing files is never refreshed: a path that held a file at
  start-up is ignored by \<open>add\<close> for the whole run, even after that file was removed and a
  new file was created under the same name; only the removal is logged.
\<close>

theorem run_stale_existing_files:
  assumes "p \<in> set (existingFiles st)"
  shows "run st [Unlink p, Add p] = Inr (st\<lparr>log := log st @ [info (''File removed: '' @ p)]\<rparr>)"
  using assms by (simp add: onUnlink_def onAdd_def)

theorem run_stale_existing_files_witness:
  "run \<lparr>fs = [], log = [], root = ''/w'', existingFiles = [''/w/a.pdf'']\<rparr> [Unlink ''/w/a.pdf'', Add ''/w/a.pdf''] =
   Inr \<lparr>fs = [], log = [info ''File removed: /w/a.pdf''], root = ''/w'', existingFiles = [''/w/a.pdf'']\<rparr>"
  using run_stale_existing_files [of "''/w/a.pdf''" "\<lparr>fs = [], log = [], root = ''/w'', existingFiles = [''/w/a.pdf'']\<rparr>"]
  by simp

text \<open>
  The \<open>ignored\<close> option is matched against the whole path: a file whose name merely
  contains \<open>.git\<close> or \<open>node_modules\<close> is never delivered (the comment on line 84 speaks
  of directories).
\<close>

lemma ignored_paths_never_delivered:
  assumes "sublist ''.git'' p \<or> sublist ''node_modules'' p"
  shows "Add p \<notin> set (delivered watcherOptions es) \<and> Change p \<notin> set (delivered watcherOptions es)"
  using assms by (auto simp: delivered_def watcherOptions_def ignored_def)

lemma ignored_paths_never_delivered_witness:
  "delivered watcherOptions [Add ''/w/notes.github.pdf'', Change ''/w/notes.github.pdf''] = []"
proof -
  have h: "sublist ''.git'' ''/w/notes.github.pdf'' \<or> sublist ''node_modules'' ''/w/notes.github.pdf''"
    by code_simp
  define ds where "ds = delivered watcherOptions [Add ''/w/notes.github.pdf'', Change ''/w/notes.github.pdf'']"
  have sub: "set ds \<subseteq> {Add ''/w/notes.github.pdf'', Change ''/w/notes.github.pdf''}"
    by (auto simp: ds_def delivered_def)
  have "Add ''/w/notes.github.pdf'' \<notin> set ds \<and> Change ''/w/notes.github.pdf'' \<notin> set ds"
    unfolding ds_def by (rule ignored_paths_never_delivered [OF h])
  with sub have "ds = []" by (cases ds) auto
  then show ?thesis by (simp add: ds_def)
qed


text \<open>
  C17. The only exception that ends a run is one of \<open>mkdirSync\<close>: when \<open>run\<close> stops with
  an error, the error is a code \<open>mkdirSync\<close> can raise (never one of \<open>renameSync\<close> such
  as \<open>EISDIR\<close>, \<open>EINVAL\<close> or \<open>ENOTEMPTY\<close>, which \<open>organizeFile\<close> catches), it is raised
  by the handler of one event after the events before it were handled normally, and the
  events after it are never handled.
\<close>

theorem run_uncaught_only_mkdir:
  assumes "run st es = Inl err"
  shows "err \<in> {EEXIST, ENOTDIR, EACCES, ENOENT} \<and>
         (\<exists>pre ev rest st'. es = pre @ ev # rest \<and> run st pre = Inr st' \<and> on_event st' ev = Inl err \<and>
                            (\<exists>t. mkdirSync_recursive (fs st') t = Inl err))"
proof -
  have "\<exists>pre ev rest st'. es = pre @ ev # rest \<and> run st pre = Inr st' \<and> on_event st' ev = Inl err \<and>
                         (\<exists>t. mkdirSync_recursive (fs st') t = Inl err)"
    using assms
  proof (induction st es rule: run.induct)
    case (1 st)
    then show ?case by simp
  next
    case (2 st e es)
    show ?case
    proof (cases "on_event st e")
      case (Inl err')
      with "2.prems" have "on_event st e = Inl err" by simp
      with on_event_error show ?thesis by (metis append_Nil run.simps(1))
    next
      case (Inr st1)
      with "2.prems" have "run st1 es = Inl err" by simp
      from "2.IH" [OF Inr this] obtain pre ev rest st' where
        "es = pre @ ev # rest" "run st1 pre = Inr st'" "on_event st' ev = Inl err"
        "\<exists>t. mkdirSync_recursive (fs st') t = Inl err" by blast
      with Inr show ?thesis by (intro exI [of _ "e # pre"]) auto
    qed
  qed
  then show ?thesis by (blast dest: mkdirSync_recursive_error)
qed

theorem run_uncaught_only_mkdir_witness:
  "EACCES \<in> {EEXIST, ENOTDIR, EACCES, ENOENT} \<and>
   (\<exists>pre ev rest st'. [Change ''/w/a.pdf'', Ready] = pre @ ev # rest \<and>
      run \<lparr>fs = [([''/''], Dir True), ([''/'', ''w''], Dir False), ([''/'', ''w'', ''a.pdf''], File 1)],
           log = [], root = ''/w'', existingFiles = []\<rparr> pre = Inr st' \<and>
      on_event st' ev = Inl EACCES \<and> (\<exists>t. mkdirSync_recursive (fs st') t = Inl EACCES))"
proof -
  have "run \<lparr>fs = [([''/''], Dir True), ([''/'', ''w''], Dir False), ([''/'', ''w'', ''a.pdf''], File 1)],
             log = [], root = ''/w'', existingFiles = []\<rparr> [Change ''/w/a.pdf'', Ready] = Inl EACCES"
    by code_simp
  then show ?thesis by (rule run_uncaught_only_mkdir)
qed

end
