(* ===== verification/Environment.thy ===== *)
theory Environment
  imports Watch_Controller
begin

text \<open>
  The world the program runs in. Other programs write files into the watched tree
  (\<open>writeFileSync\<close> of the file-system model), and chokidar reports changes as events,
  which it drops when the \<open>ignored\<close> option matches their path. A session interleaves
  both kinds of action in one sequence; the program itself is only the handlers of
  \<open>Watch_Controller\<close>. The inductive \<open>reachable\<close> is the set of program states that
  some such interleaving produces from the state after start-up.
\<close>

section \<open>Actions of the environment\<close>

datatype action = Write string nat | Emit event

fun world_run :: "watcher \<Rightarrow> action list \<Rightarrow> fs_error + watcher" where
  "world_run st [] = Inr st"
| "world_run st (Write p c # acts) =
     (case writeFileSync (fs st) p c of
        Inl e \<Rightarrow> world_run st acts
      | Inr fs' \<Rightarrow> world_run (st\<lparr>fs := fs'\<rparr>) acts)"
| "world_run st (Emit e # acts) =
     (case delivered watcherOptions [e] of
        [] \<Rightarrow> world_run st acts
      | _ \<Rightarrow> (case on_event st e of Inl err \<Rightarrow> Inl err | Inr st' \<Rightarrow> world_run st' acts))"

inductive reachable :: "string \<Rightarrow> fsys \<Rightarrow> watcher \<Rightarrow> bool" for d fs0 where
  init: "reachable d fs0 (startup d fs0)"
| user_write: "reachable d fs0 st \<Longrightarrow> writeFileSync (fs st) p c = Inr fs' \<Longrightarrow>
          reachable d fs0 (st\<lparr>fs := fs'\<rparr>)"
| handle: "reachable d fs0 st \<Longrightarrow> on_event st e = Inr st' \<Longrightarrow> reachable d fs0 st'"

section \<open>Lemmas\<close>

lemma reachable_world_run:
  "world_run st acts = Inr st' \<Longrightarrow> reachable d fs0 st \<Longrightarrow> reachable d fs0 st'"
proof (induction st acts rule: world_run.induct)
  case (1 st)
  then show ?case by simp
next
  case (2 st p c acts)
  then show ?case by (auto split: sum.splits intro: reachable.user_write)
next
  case (3 st e acts)
  then show ?case by (auto split: list.splits sum.splits intro: reachable.handle)
qed

lemma delivered_visible: "\<not> ignored p \<Longrightarrow> delivered watcherOptions [Add p] = [Add p] \<and>
  delivered watcherOptions [Change p] = [Change p]"
  by (simp add: delivered_def watcherOptions_def)

lemma startup_readable:
  assumes "map_of fs0 (path_key d) = Some (Dir w)"
  shows "startup d fs0 =
           \<lparr>fs = fs0, log = [info (''Watching file system activity in '' @ d)], root = d,
            existingFiles = map (join d) (children fs0 (path_key d))\<rparr>"
  using assms by (simp add: startup_def watching_line_def getExistingFiles_def readdirSync_def)

text \<open>
  A plain name that is not in the watched directory at start-up is not in the list of
  pre-existing files, when the directory's entries have plain names (as every real
  listing has).
\<close>

lemma startup_fresh_name:
  assumes root: "d \<noteq> []" and names: "\<forall>m \<in> set (children fs0 (path_key d)). plain_segment m"
    and n: "plain_segment n" and new: "map_of fs0 (path_key d @ [n]) = None"
  shows "join d n \<notin> set (map (join d) (children fs0 (path_key d)))"
proof
  assume "join d n \<in> set (map (join d) (children fs0 (path_key d)))"
  then obtain m where m: "m \<in> set (children fs0 (path_key d))" and eq: "join d m = join d n"
    by auto
  from eq have "path_key (join d m) = path_key (join d n)" by simp
  with root names m n have "m = n" by (simp add: path_key_join)
  with children_lookup [OF m] new show False by simp
qed

lemma startup_fs: "fs (startup d fs0) = fs0"
  by (simp add: startup_def watching_line_def getExistingFiles_def split: sum.splits)

section \<open>Properties\<close>

text \<open>
  C18. What a session never changes: in every reachable state the watched root is the
  one the program started with, the list of pre-existing files is the start-up listing,
  and the log extends the log written at start-up (lines are only ever appended).
\<close>

theorem reachable_session_invariant:
  assumes "reachable d fs0 st"
  shows "root st = d \<and> existingFiles st = existingFiles (startup d fs0) \<and>
         prefix (log (startup d fs0)) (log st)"
  using assms
proof (induction rule: reachable.induct)
  case init
  then show ?case by (simp add: startup_def watching_line_def split: prod.splits)
next
  case (user_write st p c fs')
  then show ?case by simp
next
  case (handle st e st')
  with on_event_config [OF handle.hyps(2)] on_event_log [OF handle.hyps(2)] show ?case
    by (auto intro: prefix_order.trans)
qed

theorem reachable_session_invariant_witness:
  "root (startup ''/w'' []) = ''/w'' \<and> existingFiles (startup ''/w'' []) = existingFiles (startup ''/w'' []) \<and>
   prefix (log (startup ''/w'' [])) (log (startup ''/w'' []))"
  using reachable_session_invariant [OF reachable.init [of "''/w''" "[]"]] .

end
