(* ===== verification/Console.thy ===== *)
theory Console
  imports Timestamp Environment
begin

text \<open>
  The console protocol of \<open>src/index.js\<close>: what a log line of the model prints at a
  given time. A line written with the timestamp prefix (\<open>[${format(new Date(),
  'yyyy-MM-dd HH:mm:ss')}] ...\<close>, lines 13, 62, 64, 97--116) prints the formatted time in
  brackets before the message; the one line written without it (line 73) prints the
  message alone. The reader \<open>parse_line\<close> is the specification's format
  \<open>[YYYY-MM-DD HH:MM:SS] <message>\<close> (section 6).
\<close>

section \<open>Printing and reading lines\<close>

definition render_line :: "datetime \<Rightarrow> log_line \<Rightarrow> string" where
  "render_line t l =
     (case l of Log s stamped msg \<Rightarrow> if stamped then ''['' @ format_ts t @ ''] '' @ msg else msg)"

definition parse_line :: "string \<Rightarrow> (datetime \<times> string) option" where
  "parse_line s =
     (if 22 \<le> length s \<and> s ! 0 = CHR ''['' \<and> s ! 20 = CHR '']'' \<and> s ! 21 = CHR '' ''
      then map_option (\<lambda>t. (t, drop 22 s)) (parse_ts (take 19 (drop 1 s)))
      else None)"

definition line_stamped :: "log_line \<Rightarrow> bool" where
  "line_stamped l = (case l of Log s stamped msg \<Rightarrow> stamped)"

text \<open>The lines a session may hold: stamped ones, and the start-up listing error.\<close>

definition readdir_error_line :: "string \<Rightarrow> log_line \<Rightarrow> bool" where
  "readdir_error_line d l =
     (case l of Log Stderr False msg \<Rightarrow> prefix (''Error reading directory '' @ d @ '': '') msg
              | _ \<Rightarrow> False)"

definition line_typed :: "string \<Rightarrow> log_line \<Rightarrow> bool" where
  "line_typed d l \<longleftrightarrow> line_stamped l \<or> readdir_error_line d l"

section \<open>Lemmas\<close>

lemma line_stamped_Log [simp]: "line_stamped (Log s b m) = b"
  by (simp add: line_stamped_def)

lemma info_stamped [simp]: "line_stamped (info m)"
  by (simp add: info_def)

lemma createDirectoryIfNeeded_stamped:
  "createDirectoryIfNeeded t st = Inr st' \<Longrightarrow> \<exists>new. log st' = log st @ new \<and> list_all line_stamped new"
  by (erule createDirectoryIfNeeded_cases) auto

lemma stamped_snoc:
  "list_all line_stamped new \<Longrightarrow> line_stamped x \<Longrightarrow>
   \<exists>new'. l0 @ new @ [x] = l0 @ new' \<and> list_all line_stamped new'"
  by (intro exI [of _ "new @ [x]"]) simp

lemma organizeFile_stamped:
  "organizeFile r p st = Inr st' \<Longrightarrow> \<exists>new. log st' = log st @ new \<and> list_all line_stamped new"
  by (auto simp: organizeFile_def Let_def split: if_splits option.splits sum.splits
           dest!: createDirectoryIfNeeded_stamped intro!: stamped_snoc)


lemma on_event_stamped:
  "on_event st e = Inr st' \<Longrightarrow> \<exists>new. log st' = log st @ new \<and> list_all line_stamped new"
proof (cases e)
  case (Add p)
  then show "on_event st e = Inr st' \<Longrightarrow> ?thesis"
    by (auto simp: onAdd_def split: if_splits dest!: organizeFile_stamped)
next
  case (Change p)
  then show "on_event st e = Inr st' \<Longrightarrow> ?thesis"
    by (auto simp: onChange_def dest!: organizeFile_stamped)
qed (auto simp: listener_defs)

section \<open>Properties\<close>

text \<open>
  C22. A timestamped line reads back: at every valid time, the line the program prints
  for a stamped log entry is in the specification's format, and the reader recovers the
  time and the message.
\<close>

theorem parse_render_line:
  assumes "valid_datetime t"
  shows "parse_line (render_line t (Log s True msg)) = Some (t, msg)"
proof -
  have len: "length (format_ts t) = 19" using assms by (rule format_ts_length)
  then show ?thesis
    using parse_format_ts [OF assms] by (simp add: render_line_def parse_line_def nth_append)
qed

theorem parse_render_line_witness:
  "parse_line (render_line \<lparr>dt_year = 2024, dt_month = 5, dt_day = 7, dt_hour = 9, dt_minute = 3, dt_second = 0\<rparr>
                (Log Stdout True ''Moved: /w/a.pdf -> /w/doc/a.pdf'')) =
   Some (\<lparr>dt_year = 2024, dt_month = 5, dt_day = 7, dt_hour = 9, dt_minute = 3, dt_second = 0\<rparr>,
         ''Moved: /w/a.pdf -> /w/doc/a.pdf'')"
  by (rule parse_render_line) (simp add: valid_datetime_def)

text \<open>
  C23. The log of a session is well typed: in every reachable state every line carries
  the timestamp, except the one line that reports a failed listing of the watched
  directory at start-up (on standard error). In particular every line on standard
  output is timestamped.
\<close>

theorem reachable_log_typed:
  assumes "reachable d fs0 st"
  shows "list_all (line_typed d) (log st)"
  using assms
proof (induction rule: reachable.induct)
  case init
  then show ?case
    by (simp add: startup_def watching_line_def getExistingFiles_def line_typed_def readdir_error_line_def split: sum.splits)
next
  case (user_write st p c fs')
  then show ?case by simp
next
  case (handle st e st')
  from on_event_stamped [OF handle.hyps(2)] obtain new where
    "log st' = log st @ new" and "list_all line_stamped new" by blast
  with handle.IH show ?case by (auto simp: list_all_iff line_typed_def)
qed

theorem reachable_log_typed_witness:
  "list_all (line_typed ''/w'') (log (startup ''/w'' []))"
  using reachable_log_typed [OF reachable.init [of "''/w''" "[]"]] .



end
