(* ===== verification/Watch_Progress.thy ===== *)
theory Watch_Progress
  imports Watch_Controller
begin

text \<open>
  What the watcher of \<open>src/index.js\<close> guarantees over a whole stream of events: when
  it keeps running, and how much it logs. The condition \<open>watch_ok\<close> is the one under which no
  listener throws: a well-formed tree, a writable watched directory, and none of the four
  category folders taken by a file.
\<close>

section \<open>Definitions\<close>

definition folder_usable :: "fsys \<Rightarrow> fkey \<Rightarrow> bool" where
  "folder_usable tree k = (case map_of tree k of Some (File c) \<Rightarrow> False | _ \<Rightarrow> True)"

definition watch_ok :: "watcher \<Rightarrow> bool" where
  "watch_ok st \<longleftrightarrow> fs_wf (fs st) \<and> root st \<noteq> [] \<and>
     map_of (fs st) (path_key (root st)) = Some (Dir True) \<and>
     list_all (\<lambda>f. folder_usable (fs st) (path_key (root st) @ [f])) [''video'', ''audio'', ''image'', ''doc'']"

section \<open>Lemmas\<close>

lemma watch_ok_iff:
  "watch_ok st \<longleftrightarrow> fs_wf (fs st) \<and> root st \<noteq> [] \<and>
     map_of (fs st) (path_key (root st)) = Some (Dir True) \<and>
     (\<forall>f \<in> {''video'', ''audio'', ''image'', ''doc''}. folder_usable (fs st) (path_key (root st) @ [f]))"
  by (simp add: watch_ok_def)

lemma classified_not_folder:
  assumes "getFolderNameBasedOnExtension (drop 1 (extname p)) = Some f"
    and "f' \<in> {''video'', ''audio'', ''image'', ''doc''}"
  shows "basename p \<noteq> f'"
proof -
  have "extname p \<noteq> []"
    using assms(1) getFolderNameBasedOnExtension_Nil by (cases "extname p") auto
  then have "CHR ''.'' \<in> set (basename p)" by (rule extname_plain_basename)
  with folder_name_plain [OF assms(2)] show ?thesis by auto
qed

text \<open>The folder step never throws while the folder is not taken by a file.\<close>

lemma ensure_folder_progress:
  assumes wf: "fs_wf (fs st)" and rd: "map_of (fs st) rk = Some (Dir True)" and f: "f \<noteq> ''/''"
    and key: "path_key t = rk @ [f]" and usable: "folder_usable (fs st) (rk @ [f])"
  shows "\<exists>st1. createDirectoryIfNeeded t st = Inr st1"
proof (cases "map_of (fs st) (rk @ [f])")
  case None
  then show ?thesis using createDirectoryIfNeeded_under_dir [OF wf rd f key None] by simp
next
  case (Some n)
  then have "existsSync (fs st) t" by (simp add: existsSync_def key)
  then show ?thesis by (simp add: createDirectoryIfNeeded_exists)
qed

text \<open>Under \<open>watch_ok\<close>, \<open>organizeFile\<close> returns normally and keeps \<open>watch_ok\<close>.\<close>

lemma organizeFile_progress:
  assumes ok: "watch_ok st"
  shows "\<exists>st'. organizeFile (root st) p st = Inr st' \<and> watch_ok st'"
proof (cases "p \<noteq> [] \<and> getFolderNameBasedOnExtension (drop 1 (extname p)) \<noteq> None")
  case False
  then consider "p = []" | "getFolderNameBasedOnExtension (drop 1 (extname p)) = None" by blast
  then have "organizeFile (root st) p st = Inr st" by cases (simp_all add: organizeFile_def Let_def)
  with ok show ?thesis by blast
next
  case True
  then obtain f where p: "p \<noteq> []" and cls: "getFolderNameBasedOnExtension (drop 1 (extname p)) = Some f"
    by blast
  let ?rk = "path_key (root st)" and ?F = "{''video'', ''audio'', ''image'', ''doc''}"
  let ?dest = "join (join (root st) f) (basename p)"
  from ok have wf: "fs_wf (fs st)" and root: "root st \<noteq> []"
    and rd: "map_of (fs st) ?rk = Some (Dir True)"
    and usable: "\<forall>f' \<in> ?F. folder_usable (fs st) (?rk @ [f'])"
    by (simp_all add: watch_ok_iff)
  note paths = classified_paths [OF root cls]
  have fF: "f \<in> ?F" using cls by (rule getFolderNameBasedOnExtension_folder)
  obtain st1 where ens: "createDirectoryIfNeeded (join (root st) f) st = Inr st1"
    using ensure_folder_progress [OF wf rd paths(3) paths(4)] usable fF by blast
  have wf1: "fs_wf (fs st1)" using wf ens by (rule createDirectoryIfNeeded_wf)
  have grow: "map_of (fs st1) k = map_of (fs st) k \<or>
              (map_of (fs st) k = None \<and> map_of (fs st1) k = Some (Dir True))" for k
    using ens by (rule createDirectoryIfNeeded_grows)
  have rd1: "map_of (fs st1) ?rk = Some (Dir True)" using grow [of ?rk] rd by auto
  have usable1: "folder_usable (fs st1) (?rk @ [f'])" if "f' \<in> ?F" for f'
    using usable that grow [of "?rk @ [f']"] by (auto simp: folder_usable_def)
  define fs2 where "fs2 = (case renameSync (fs st1) p ?dest of Inr fs' \<Rightarrow> fs' | Inl e \<Rightarrow> fs st1)"
  obtain st' where org: "organizeFile (root st) p st = Inr st'" and fs2: "fs st' = fs2"
    using organizeFile_classified [OF p cls, of "root st" st] ens
    by (cases "renameSync (fs st1) p ?dest") (auto simp: fs2_def)
  have keep: "map_of fs2 k = map_of (fs st1) k" if k: "k = ?rk \<or> (\<exists>f' \<in> ?F. k = ?rk @ [f'])" for k
  proof (cases "renameSync (fs st1) p ?dest")
    case (Inl e)
    then show ?thesis by (simp add: fs2_def)
  next
    case (Inr fs')
    have anc: "strict_prefix k (path_key ?dest) \<Longrightarrow> map_of fs' k = map_of (fs st1) k"
      using renameSync_keeps_ancestor [OF wf1 Inr] by blast
    have rk_anc: "strict_prefix ?rk (path_key ?dest)" by (simp add: paths(5) strict_prefix_def)
    show ?thesis
    proof (cases "strict_prefix k (path_key ?dest)")
      case True
      with anc Inr show ?thesis by (simp add: fs2_def)
    next
      case False
      from k rk_anc False obtain f' where f': "f' \<in> ?F" and kf: "k = ?rk @ [f']" by blast
      have ff: "f' \<noteq> f"
      proof
        assume "f' = f"
        then have "strict_prefix k (path_key ?dest)" by (simp add: kf paths(5) strict_prefix_def)
        with False show False ..
      qed
      have "\<not> prefix (path_key p) k"
      proof
        assume "prefix (path_key p) k"
        then consider "path_key p = ?rk @ [f']" | "prefix (path_key p) ?rk" by (auto simp: kf)
        then show False
        proof cases
          case 1
          with paths(6) classified_not_folder [OF cls f'] show False by auto
        next
          case 2
          with renameSync_src_not_above [OF wf1 Inr rk_anc] show False by simp
        qed
      qed
      moreover have "\<not> prefix (path_key ?dest) k" by (auto simp: kf paths(5) ff)
      ultimately show ?thesis using renameSync_unrelated [OF wf1 Inr] Inr by (simp add: fs2_def)
    qed
  qed
  have "root st' = root st" using organizeFile_more [OF org] by (rule watcher_more_eq [THEN conjunct1])
  moreover have "fs_wf (fs st')" using wf org by (rule organizeFile_wf)
  moreover have "map_of (fs st') ?rk = Some (Dir True)" using keep [of ?rk] rd1 by (simp add: fs2)
  moreover have "folder_usable (fs st') (?rk @ [f'])" if "f' \<in> ?F" for f'
    using keep [of "?rk @ [f']"] usable1 [OF that] that by (simp add: fs2 folder_usable_def)
  ultimately have "watch_ok st'" using root by (simp add: watch_ok_iff)
  with org show ?thesis by blast
qed

lemma on_event_progress:
  assumes "watch_ok st"
  shows "\<exists>st'. on_event st e = Inr st' \<and> watch_ok st'"
proof -
  have log_ok: "watch_ok (st\<lparr>log := l\<rparr>)" for l using assms by (simp add: watch_ok_def)
  have org: "\<exists>st'. organizeFile (root st) p (st\<lparr>log := l\<rparr>) = Inr st' \<and> watch_ok st'" for p l
    using organizeFile_progress [OF log_ok, of l p] by simp
  show ?thesis
  proof (cases e)
    case (Add p)
    then show ?thesis using org assms by (auto simp: onAdd_def)
  next
    case (Change p)
    then show ?thesis using org by (simp add: onChange_def)
  qed (use log_ok in \<open>simp_all add: listener_defs\<close>)
qed

lemma createDirectoryIfNeeded_log_length:
  "createDirectoryIfNeeded t st = Inr st' \<Longrightarrow> length (log st') \<le> Suc (length (log st))"
  by (erule createDirectoryIfNeeded_cases) simp_all

lemma organizeFile_log_length:
  "organizeFile r p st = Inr st' \<Longrightarrow> length (log st') \<le> length (log st) + 2"
  by (auto simp: organizeFile_def Let_def split: if_splits option.splits sum.splits
           dest!: createDirectoryIfNeeded_log_length)

lemma on_event_log_length:
  "on_event st e = Inr st' \<Longrightarrow> length (log st') \<le> length (log st) + 3"
  by (cases e) (auto simp: listener_defs split: if_splits dest!: organizeFile_log_length)

section \<open>Properties\<close>

text \<open>
  C20. The watcher keeps running: as long as the tree is well formed, the watched
  directory is writable and no category folder is taken by a file, every event of any
  stream is handled; \<open>run\<close> reaches the end of the stream without an uncaught exception,
  and the condition still holds there (so the next stream is handled as well).
\<close>

theorem run_keeps_running:
  assumes "watch_ok st"
  shows "\<exists>st'. run st es = Inr st' \<and> watch_ok st'"
  using assms
proof (induction es arbitrary: st)
  case Nil
  then show ?case by simp
next
  case (Cons e es)
  from on_event_progress [OF Cons.prems] obtain st1 where "on_event st e = Inr st1" and "watch_ok st1"
    by blast
  with Cons.IH [of st1] show ?case by simp
qed

theorem run_keeps_running_witness:
  "\<exists>st'. run \<lparr>fs = [([''/''], Dir True), ([''/'', ''w''], Dir True), ([''/'', ''w'', ''a.pdf''], File 1)],
                 log = [], root = ''/w'', existingFiles = []\<rparr>
            [Add ''/w/a.pdf'', Change ''/w/doc/a.pdf'', Unlink ''/w/b'', Ready] = Inr st' \<and> watch_ok st'"
proof -
  have "watch_ok \<lparr>fs = [([''/''], Dir True), ([''/'', ''w''], Dir True), ([''/'', ''w'', ''a.pdf''], File 1)],
                  log = [], root = ''/w'', existingFiles = []\<rparr>"
    by code_simp
  then show ?thesis by (rule run_keeps_running)
qed

text \<open>
  C21. The log grows by at most three lines per event ("File added", "Created
  directory", "Moved"), and never shrinks.
\<close>

theorem run_log_bound:
  assumes "run st es = Inr st'"
  shows "length (log st) \<le> length (log st') \<and> length (log st') \<le> length (log st) + 3 * length es"
  using assms
proof (induction st es rule: run.induct)
  case (1 st)
  then show ?case by simp
next
  case (2 st e es)
  then obtain st1 where e: "on_event st e = Inr st1" and r: "run st1 es = Inr st'"
    by (auto split: sum.splits)
  have "length (log st) \<le> length (log st1)" using on_event_log [OF e] by (rule prefix_length_le)
  with "2.IH" [OF e r] on_event_log_length [OF e] show ?case by simp
qed

theorem run_log_bound_witness:
  "length ([] :: log_line list) \<le> 3 \<and> 3 \<le> length ([] :: log_line list) + 3 * length [Add ''/w/a.pdf'']"
proof -
  have "run \<lparr>fs = [([''/''], Dir True), ([''/'', ''w''], Dir True), ([''/'', ''w'', ''a.pdf''], File 1)],
             log = [], root = ''/w'', existingFiles = []\<rparr> [Add ''/w/a.pdf''] =
        Inr \<lparr>fs = [([''/''], Dir True), ([''/'', ''w''], Dir True), ([''/'', ''w'', ''doc'', ''a.pdf''], File 1),
                   ([''/'', ''w'', ''doc''], Dir True)],
             log = [info ''File added: /w/a.pdf'', info ''Created directory: /w/doc'',
                    info ''Moved: /w/a.pdf -> /w/doc/a.pdf''],
             root = ''/w'', existingFiles = []\<rparr>"
    by code_simp
  from run_log_bound [OF this] show ?thesis by simp
qed

end
