(* ===== verification/Chokidar.thy ===== *)
theory Chokidar
  imports Watch_Controller
begin

text \<open>
  The \<open>awaitWriteFinish\<close> option of the watcher (lines 86--89 of \<open>src/index.js\<close>) and
  chokidar's implementation of it, modelled from the library. When a file is first seen
  (time \<open>t0\<close>, in milliseconds) its event is held back and the time of its last change
  is set to \<open>t0\<close>. Every further event the native watcher reports for the waiting path
  sets the last change to the time of that event (\<open>pw.lastChange = new Date()\<close> in
  \<open>_emit\<close>); the model assumes each write by another program is reported at its time.
  A poll every \<open>pollInterval\<close> ms reads the size; a size different from the previous
  poll's sets the last change to the time of the poll (the first poll has no previous
  size). The event is emitted at the first poll at which \<open>stabilityThreshold\<close> ms have
  passed since the last change. The writes are given by their times; each changes the
  size. The loop is a \<open>partial_function (option)\<close>: with a poll interval of 0 time would
  not advance and it would not return.
\<close>

section \<open>The polling loop\<close>

definition size_at :: "nat list \<Rightarrow> nat \<Rightarrow> nat" where
  "size_at writes t = length (filter (\<lambda>w. w \<le> t) writes)"

partial_function (option) awf_poll ::
  "nat \<Rightarrow> nat \<Rightarrow> nat list \<Rightarrow> nat \<Rightarrow> nat option \<Rightarrow> nat \<Rightarrow> nat option" where
  "awf_poll thr itv writes lastChange prevSize now =
     (let lastChange1 = fold max (filter (\<lambda>w. w \<le> now) writes) lastChange;
          curSize = size_at writes now;
          lastChange' = (case prevSize of
                           Some s \<Rightarrow> if curSize \<noteq> s then now else lastChange1
                         | None \<Rightarrow> lastChange1)
      in if thr \<le> now - lastChange' then Some now
         else awf_poll thr itv writes lastChange' (Some curSize) (now + itv))"

definition awaitWriteFinish :: "watch_options \<Rightarrow> nat list \<Rightarrow> nat \<Rightarrow> nat option" where
  "awaitWriteFinish opts writes t0 =
     awf_poll (stabilityThreshold opts) (pollInterval opts) writes t0 None (t0 + pollInterval opts)"

definition last_write :: "nat \<Rightarrow> nat list \<Rightarrow> nat" where
  "last_write t0 writes = fold max writes t0"

text \<open>What holds at every poll: the previous size is the size one interval earlier.\<close>

definition awf_inv :: "nat list \<Rightarrow> nat \<Rightarrow> nat \<Rightarrow> nat \<Rightarrow> nat option \<Rightarrow> nat \<Rightarrow> bool" where
  "awf_inv ws t0 itv lc prev now \<longleftrightarrow>
     itv \<le> now \<and> t0 \<le> lc \<and> lc \<le> now \<and>
     (case prev of None \<Rightarrow> True | Some ps \<Rightarrow> ps = size_at ws (now - itv))"

section \<open>Lemmas\<close>

lemma size_at_split:
  "a \<le> b \<Longrightarrow> size_at ws b = size_at ws a + length (filter (\<lambda>w. a < w \<and> w \<le> b) ws)"
  by (induction ws) (auto simp: size_at_def)

lemma size_at_same: "a \<le> b \<Longrightarrow> size_at ws b = size_at ws a \<longleftrightarrow> (\<forall>w \<in> set ws. w \<le> a \<or> b < w)"
  by (auto simp: size_at_split filter_empty_conv)

lemma fold_max_ge: "(x::nat) \<le> fold max xs x \<and> (\<forall>w \<in> set xs. w \<le> fold max xs x)"
proof (induction xs arbitrary: x)
  case Nil
  then show ?case by simp
next
  case (Cons w xs)
  from Cons.IH [of "max w x"] show ?case by auto
qed

lemma fold_max_le: "(x::nat) \<le> b \<Longrightarrow> \<forall>w \<in> set xs. w \<le> b \<Longrightarrow> fold max xs x \<le> b"
  by (induction xs arbitrary: x) simp_all

lemma last_write_ge: "t0 \<le> last_write t0 ws \<and> (\<forall>w \<in> set ws. w \<le> last_write t0 ws)"
  unfolding last_write_def by (rule fold_max_ge)

lemma awf_step:
  assumes inv: "awf_inv ws t0 itv lc prev now"
    and lc1: "lc1 = fold max (filter (\<lambda>w. w \<le> now) ws) lc"
    and lc': "lc' = (case prev of Some s \<Rightarrow> if size_at ws now \<noteq> s then now else lc1 | None \<Rightarrow> lc1)"
  shows "(\<forall>w \<in> set ws. w \<le> now \<longrightarrow> w \<le> lc') \<and> t0 \<le> lc' \<and> lc1 \<le> lc' \<and> lc' \<le> now"
proof -
  have ge: "lc \<le> lc1 \<and> (\<forall>w \<in> set ws. w \<le> now \<longrightarrow> w \<le> lc1)"
    using fold_max_ge [of lc "filter (\<lambda>w. w \<le> now) ws"] by (simp add: lc1)
  have le: "lc1 \<le> now" using inv unfolding lc1 by (intro fold_max_le) (simp_all add: awf_inv_def)
  have "lc' = lc1 \<or> lc' = now" by (simp add: lc' split: option.splits)
  with ge le inv show ?thesis by (auto simp: awf_inv_def)
qed

lemma awf_poll_quiet:
  assumes ret: "awf_poll thr itv ws lc prev now = Some r"
    and inv: "awf_inv ws t0 itv lc prev now"
  shows "(\<forall>w \<in> set ws. w \<le> r \<longrightarrow> w + thr \<le> r) \<and> t0 + thr \<le> r"
proof -
  have "ws = ws \<longrightarrow> awf_inv ws t0 itv lc prev now \<longrightarrow>
      (\<forall>w \<in> set ws. w \<le> r \<longrightarrow> w + thr \<le> r) \<and> t0 + thr \<le> r"
  proof (rule awf_poll.raw_induct [where P = "\<lambda>thr itv ws' lc prev now r. ws' = ws \<longrightarrow>
      awf_inv ws t0 itv lc prev now \<longrightarrow> (\<forall>w \<in> set ws. w \<le> r \<longrightarrow> w + thr \<le> r) \<and> t0 + thr \<le> r",
      OF _ ret])
    fix f thr itv ws' lc prev now r
    assume IH: "\<And>thr itv ws' lc prev now r. f thr itv ws' lc prev now = Some r \<Longrightarrow> ws' = ws \<longrightarrow>
      awf_inv ws t0 itv lc prev now \<longrightarrow> (\<forall>w \<in> set ws. w \<le> r \<longrightarrow> w + thr \<le> r) \<and> t0 + thr \<le> r"
      and body: "(let lastChange1 = fold max (filter (\<lambda>w. w \<le> now) ws') lc;
          curSize = size_at ws' now;
          lastChange' = (case prev of Some s \<Rightarrow> if curSize \<noteq> s then now else lastChange1
                                    | None \<Rightarrow> lastChange1)
        in if thr \<le> now - lastChange' then Some now
           else f thr itv ws' lastChange' (Some curSize) (now + itv)) = Some r"
    show "ws' = ws \<longrightarrow> awf_inv ws t0 itv lc prev now \<longrightarrow>
      (\<forall>w \<in> set ws. w \<le> r \<longrightarrow> w + thr \<le> r) \<and> t0 + thr \<le> r"
    proof (intro impI)
      assume ws': "ws' = ws" and inv: "awf_inv ws t0 itv lc prev now"
      define lc1 where "lc1 = fold max (filter (\<lambda>w. w \<le> now) ws) lc"
      define lc' where "lc' = (case prev of Some s \<Rightarrow> if size_at ws now \<noteq> s then now else lc1 | None \<Rightarrow> lc1)"
      have st: "(\<forall>w \<in> set ws. w \<le> now \<longrightarrow> w \<le> lc') \<and> t0 \<le> lc' \<and> lc1 \<le> lc' \<and> lc' \<le> now"
        using awf_step [OF inv lc1_def lc'_def] .
      have body': "(if thr \<le> now - lc' then Some now
          else f thr itv ws lc' (Some (size_at ws now)) (now + itv)) = Some r"
        using body unfolding Let_def ws' by (simp only: lc1_def [symmetric] lc'_def [symmetric])
      show "(\<forall>w \<in> set ws. w \<le> r \<longrightarrow> w + thr \<le> r) \<and> t0 + thr \<le> r"
      proof (cases "thr \<le> now - lc'")
        case True
        with body' have "r = now" by simp
        with True st show ?thesis by force
      next
        case False
        with body' have rec: "f thr itv ws lc' (Some (size_at ws now)) (now + itv) = Some r"
          by simp
        have "awf_inv ws t0 itv lc' (Some (size_at ws now)) (now + itv)"
          using st inv by (auto simp: awf_inv_def)
        with IH [OF rec] show ?thesis by blast
      qed
    qed
  qed
  with inv show ?thesis by blast
qed

lemma awf_change_before_last:
  assumes "awf_inv ws t0 itv lc (Some ps) now" "size_at ws now \<noteq> ps"
  shows "now < last_write t0 ws + itv"
proof -
  from assms obtain w where "w \<in> set ws" "now - itv < w" "w \<le> now"
    by (auto simp: awf_inv_def size_at_same)
  with last_write_ge [of t0 ws] show ?thesis by fastforce
qed

lemma awf_poll_returns:
  assumes "0 < itv" "awf_inv ws t0 itv lc prev now" "lc \<le> last_write t0 ws + itv"
  shows "\<exists>r. awf_poll thr itv ws lc prev now = Some r \<and> r \<le> max now (last_write t0 ws + thr + 2 * itv)"
  using assms(2,3)
proof (induction "last_write t0 ws + itv + thr - now" arbitrary: lc prev now rule: less_induct)
  case less
  define W where "W = last_write t0 ws"
  define lc1 where "lc1 = fold max (filter (\<lambda>w. w \<le> now) ws) lc"
  define lc' where "lc' = (case prev of Some s \<Rightarrow> if size_at ws now \<noteq> s then now else lc1 | None \<Rightarrow> lc1)"
  have st: "(\<forall>w \<in> set ws. w \<le> now \<longrightarrow> w \<le> lc') \<and> t0 \<le> lc' \<and> lc1 \<le> lc' \<and> lc' \<le> now"
    using awf_step [OF less.prems(1) lc1_def lc'_def] .
  have lc1W: "lc1 \<le> W + itv"
    unfolding lc1_def W_def using less.prems(2) last_write_ge [of t0 ws] by (intro fold_max_le) auto
  have lc'W: "lc' \<le> W + itv"
    using less.prems lc1W
    by (cases prev) (auto simp: lc'_def W_def dest: awf_change_before_last)
  have unf: "awf_poll thr itv ws lc prev now =
      (if thr \<le> now - lc' then Some now else awf_poll thr itv ws lc' (Some (size_at ws now)) (now + itv))"
    by (subst awf_poll.simps) (simp only: Let_def lc1_def [symmetric] lc'_def [symmetric])
  show ?case
  proof (cases "thr \<le> now - lc'")
    case True
    with unf show ?thesis by simp
  next
    case False
    have late: "now < W + itv + thr"
    proof (rule ccontr)
      assume "\<not> now < W + itv + thr"
      then have "lc' = lc1"
        using less.prems(1)
        by (cases prev) (auto simp: lc'_def W_def dest: awf_change_before_last)
      with False lc1W \<open>\<not> now < W + itv + thr\<close> show False by simp
    qed
    have inv': "awf_inv ws t0 itv lc' (Some (size_at ws now)) (now + itv)"
      using st less.prems(1) by (auto simp: awf_inv_def)
    have dec: "last_write t0 ws + itv + thr - (now + itv) < last_write t0 ws + itv + thr - now"
      using late assms(1) unfolding W_def by linarith
    from less.hyps [OF dec inv' lc'W [unfolded W_def]] obtain r where
      "awf_poll thr itv ws lc' (Some (size_at ws now)) (now + itv) = Some r"
      "r \<le> max (now + itv) (W + thr + 2 * itv)"
      unfolding W_def by blast
    with False unf late show ?thesis by (auto simp: W_def)
  qed
qed

lemma awf_start_inv: "awf_inv ws t0 itv t0 None (t0 + itv)"
  by (auto simp: awf_inv_def)

lemma awaitWriteFinish_returns_gen:
  assumes "0 < pollInterval opts"
  shows "\<exists>t. awaitWriteFinish opts ws t0 = Some t \<and>
    t \<le> last_write t0 ws + stabilityThreshold opts + 2 * pollInterval opts"
proof -
  have "t0 \<le> last_write t0 ws + pollInterval opts" using last_write_ge [of t0 ws] by simp
  from awf_poll_returns [OF assms awf_start_inv this, of "stabilityThreshold opts"]
  obtain r where "awf_poll (stabilityThreshold opts) (pollInterval opts) ws t0 None (t0 + pollInterval opts) = Some r"
    "r \<le> max (t0 + pollInterval opts) (last_write t0 ws + stabilityThreshold opts + 2 * pollInterval opts)"
    by blast
  moreover have "t0 + pollInterval opts \<le> last_write t0 ws + stabilityThreshold opts + 2 * pollInterval opts"
    using last_write_ge [of t0 ws] by simp
  ultimately show ?thesis by (auto simp: awaitWriteFinish_def)
qed

lemma awaitWriteFinish_quiet_gen:
  assumes "awaitWriteFinish opts ws t0 = Some t"
  shows "t0 + stabilityThreshold opts \<le> t \<and> (\<forall>w \<in> set ws. w \<le> t \<longrightarrow> w + stabilityThreshold opts \<le> t)"
  using awf_poll_quiet [OF assms [unfolded awaitWriteFinish_def] awf_start_inv] by blast

section \<open>Properties\<close>

text \<open>
  C25. With the program's options (\<open>pollInterval: 100\<close>, \<open>stabilityThreshold: 2000\<close>,
  lines 86--89), the held-back event of a file that other programs write finitely often is
  emitted: chokidar's poll returns, at most 2200 ms after the last write. (A poll interval
  of 0 would make it wait forever.)
\<close>

theorem awaitWriteFinish_returns:
  "\<exists>t. awaitWriteFinish watcherOptions ws t0 = Some t \<and> t \<le> last_write t0 ws + 2200"
proof -
  have "0 < pollInterval watcherOptions" by (simp add: watcherOptions_def)
  from awaitWriteFinish_returns_gen [OF this, of ws t0] obtain t where
    "awaitWriteFinish watcherOptions ws t0 = Some t"
    "t \<le> last_write t0 ws + stabilityThreshold watcherOptions + 2 * pollInterval watcherOptions"
    by blast
  moreover have "stabilityThreshold watcherOptions + 2 * pollInterval watcherOptions = 2200"
    by (simp add: watcherOptions_def)
  ultimately show ?thesis by auto
qed

text \<open>
  C26. With the program's options, as the comment on line 87 says, a file's event waits
  for 2 seconds after the last change: it is emitted at least 2000 ms after the file was
  first seen and at least 2000 ms after every write made before the emission.
\<close>

theorem awaitWriteFinish_quiet:
  assumes "awaitWriteFinish watcherOptions ws t0 = Some t"
  shows "t0 + 2000 \<le> t \<and> (\<forall>w \<in> set ws. w \<le> t \<longrightarrow> w + 2000 \<le> t)"
  using awaitWriteFinish_quiet_gen [OF assms] by (simp add: watcherOptions_def)

theorem awaitWriteFinish_quiet_witness:
  "awaitWriteFinish watcherOptions [0, 100] 0 = Some 2100 \<and>
   0 + 2000 \<le> (2100::nat) \<and> 100 + 2000 \<le> (2100::nat)"
proof -
  have run: "awaitWriteFinish watcherOptions [0, 100] 0 = Some 2100"
    unfolding awaitWriteFinish_def watcherOptions_def
    by (simp, (subst awf_poll.simps, simp add: size_at_def)+)
  from awaitWriteFinish_quiet [OF run] run show ?thesis by simp
qed

end
