(* ===== verification/Initial_Scan.thy ===== *)
theory Initial_Scan
  imports Environment
begin

text \<open>
  Chokidar's initial scan and the \<open>ignoreInitial\<close> option (line 85 of
  \<open>src/index.js\<close>). When a watcher attaches, chokidar walks the watched tree and, unless
  \<open>ignoreInitial\<close> is set, reports the root and every directory below it with
  \<open>addDir\<close> and every file with \<open>add\<close>, each path built by \<open>path.join\<close> from the
  watched path down. The program's start-up listing \<open>existingFiles\<close> (line 79) holds
  only the root's immediate children, so the \<open>add\<close> listener's check covers the
  scan's reports of those files and no others.
\<close>

section \<open>The initial scan\<close>

definition initial_scan :: "watch_options \<Rightarrow> fsys \<Rightarrow> string \<Rightarrow> event list" where
  "initial_scan opts tree r =
     (if ignoreInitial opts then []
      else AddDir r #
        map (\<lambda>(k, n). case n of
                        File c \<Rightarrow> Add (foldl join r (drop (length (path_key r)) k))
                      | Dir w \<Rightarrow> AddDir (foldl join r (drop (length (path_key r)) k)))
            (filter (\<lambda>(k, n). strict_prefix (path_key r) k) tree))"

definition attach :: "watch_options \<Rightarrow> string \<Rightarrow> fsys \<Rightarrow> event list \<Rightarrow> fs_error + watcher" where
  "attach opts r fs0 es = run (startup r fs0) (delivered opts (initial_scan opts fs0 r @ es))"

definition log_only_event :: "string list \<Rightarrow> event \<Rightarrow> bool" where
  "log_only_event ex e \<longleftrightarrow> (case e of AddDir p \<Rightarrow> True | Add p \<Rightarrow> p \<in> set ex | _ \<Rightarrow> False)"

section \<open>Lemmas\<close>

lemma main_attach: "main fs0 es = attach watcherOptions pathToWatch fs0 es"
  by (simp add: main_def attach_def initial_scan_def watcherOptions_def)

lemma set_delivered: "set (delivered opts es) \<subseteq> set es"
  by (auto simp: delivered_def)

lemma run_log_only:
  assumes "\<forall>e \<in> set es. log_only_event (existingFiles st) e"
  shows "\<exists>st'. run st es = Inr st' \<and> fs st' = fs st \<and> existingFiles st' = existingFiles st"
  using assms
proof (induction es arbitrary: st)
  case Nil
  then show ?case by simp
next
  case (Cons e es)
  then have e: "log_only_event (existingFiles st) e" by simp
  then obtain st1 where ev: "on_event st e = Inr st1" and same: "fs st1 = fs st" "existingFiles st1 = existingFiles st"
    by (cases e) (auto simp: log_only_event_def listener_defs)
  have "\<forall>e \<in> set es. log_only_event (existingFiles st1) e"
    using Cons.prems same by simp
  with Cons.IH [of st1] ev same show ?case by simp
qed

lemma scan_child_event:
  assumes wf: "fs_wf fs0" and fl: "map_of fs0 (rk @ [n]) = Some (File c)"
  shows "foldl join r (drop (length rk) (rk @ [n])) = join r n \<and> n \<in> set (children fs0 rk)"
proof
  show "foldl join r (drop (length rk) (rk @ [n])) = join r n" by simp
  have "\<not> is_root_key (rk @ [n])"
    using wf fl by (auto simp: fs_wf_def list_all_iff is_root_key_def dest!: map_of_SomeD)
  with fl show "n \<in> set (children fs0 rk)" by (intro children_member) simp_all
qed

lemma initial_scan_log_only:
  assumes wf: "fs_wf fs0"
    and flat: "\<forall>k c. map_of fs0 k = Some (File c) \<longrightarrow> strict_prefix (path_key r) k \<longrightarrow> butlast k = path_key r"
    and e: "e \<in> set (initial_scan opts fs0 r)"
  shows "log_only_event (map (join r) (children fs0 (path_key r))) e"
proof (cases "ignoreInitial opts")
  case True
  with e show ?thesis by (simp add: initial_scan_def)
next
  case False
  let ?rk = "path_key r"
  show ?thesis
  proof (cases "e = AddDir r")
    case True
    then show ?thesis by (simp add: log_only_event_def)
  next
    case notroot: False
    with e False obtain k n where kn: "(k, n) \<in> set fs0" "strict_prefix ?rk k"
      and ev: "e = (case n of File c \<Rightarrow> Add (foldl join r (drop (length ?rk) k)) | Dir w \<Rightarrow> AddDir (foldl join r (drop (length ?rk) k)))"
      by (auto simp: initial_scan_def)
    show ?thesis
    proof (cases n)
      case (File c)
      have "distinct (map fst fs0)" using wf by (simp add: fs_wf_def)
      with kn File have lk: "map_of fs0 k = Some (File c)" by simp
      with flat kn have "butlast k = ?rk" by blast
      moreover have "k \<noteq> []" using kn(2) by (auto simp: strict_prefix_def)
      ultimately have k: "k = ?rk @ [last k]" by (metis append_butlast_last_id)
      from scan_child_event [OF wf, of ?rk "last k" c r] lk k
      have "foldl join r (drop (length ?rk) k) = join r (last k) \<and> last k \<in> set (children fs0 ?rk)" by simp
      with ev File show ?thesis by (simp add: log_only_event_def)
    next
      case (Dir w)
      with ev show ?thesis by (simp add: log_only_event_def)
    qed
  qed
qed

section \<open>Properties\<close>

text \<open>
  C27. Attaching the watcher never moves a file of a flat tree, whatever the options: when
  every file below the watched directory lies directly in it, the initial scan's reports
  (if \<open>ignoreInitial\<close> is off) are directories, which are only logged, and files of
  the start-up listing, which the \<open>add\<close> listener skips; the file system after the
  scan is the one the watcher started on.
\<close>

theorem initial_scan_keeps_flat_tree:
  assumes wf: "fs_wf fs0" and rd: "map_of fs0 (path_key r) = Some (Dir w)"
    and flat: "\<forall>k c. map_of fs0 k = Some (File c) \<longrightarrow> strict_prefix (path_key r) k \<longrightarrow> butlast k = path_key r"
  shows "\<exists>st'. attach opts r fs0 [] = Inr st' \<and> fs st' = fs0"
proof -
  have ex: "existingFiles (startup r fs0) = map (join r) (children fs0 (path_key r))"
    using startup_readable [OF rd] by simp
  have "\<forall>e \<in> set (delivered opts (initial_scan opts fs0 r)). log_only_event (existingFiles (startup r fs0)) e"
  proof
    fix e assume "e \<in> set (delivered opts (initial_scan opts fs0 r))"
    then have "e \<in> set (initial_scan opts fs0 r)" using set_delivered by blast
    from initial_scan_log_only [OF wf flat this] ex show "log_only_event (existingFiles (startup r fs0)) e"
      by simp
  qed
  from run_log_only [OF this] show ?thesis unfolding attach_def startup_fs by auto
qed

theorem initial_scan_keeps_flat_tree_witness:
  "\<exists>st'. attach (watcherOptions\<lparr>ignoreInitial := False\<rparr>) ''/w''
          [([''/''], Dir True), ([''/'', ''w''], Dir True), ([''/'', ''w'', ''sub''], Dir True),
           ([''/'', ''w'', ''b.pdf''], File 2)] [] = Inr st' \<and>
        fs st' = [([''/''], Dir True), ([''/'', ''w''], Dir True), ([''/'', ''w'', ''sub''], Dir True),
                  ([''/'', ''w'', ''b.pdf''], File 2)]"
proof (rule initial_scan_keeps_flat_tree)
  show "fs_wf [([''/''], Dir True), ([''/'', ''w''], Dir True), ([''/'', ''w'', ''sub''], Dir True),
               ([''/'', ''w'', ''b.pdf''], File 2)]"
    by code_simp
  show "map_of [([''/''], Dir True), ([''/'', ''w''], Dir True), ([''/'', ''w'', ''sub''], Dir True),
                ([''/'', ''w'', ''b.pdf''], File 2)] (path_key ''/w'') = Some (Dir True)"
    by code_simp
  have pk: "path_key ''/w'' = [''/'', ''w'']" by code_simp
  show "\<forall>k c. map_of [([''/''], Dir True), ([''/'', ''w''], Dir True), ([''/'', ''w'', ''sub''], Dir True),
                     ([''/'', ''w'', ''b.pdf''], File 2)] k = Some (File c) \<longrightarrow>
          strict_prefix (path_key ''/w'') k \<longrightarrow> butlast k = path_key ''/w''"
    by (simp add: pk split: if_splits)
qed

text \<open>
  The start-up listing covers only the root's immediate children: were \<open>ignoreInitial\<close>
  off, the scan would report a file of a sub-directory and the \<open>add\<close> listener would move it
  at start-up; with the program's options (line 85) the scan reports nothing.
\<close>

lemma initial_scan_files_nested_file:
  "attach (watcherOptions\<lparr>ignoreInitial := False\<rparr>) ''/w''
     [([''/''], Dir True), ([''/'', ''w''], Dir True), ([''/'', ''w'', ''sub''], Dir True),
      ([''/'', ''w'', ''sub'', ''a.pdf''], File 1)] [] =
   Inr \<lparr>fs = [([''/''], Dir True), ([''/'', ''w''], Dir True), ([''/'', ''w'', ''sub''], Dir True),
              ([''/'', ''w'', ''doc'', ''a.pdf''], File 1), ([''/'', ''w'', ''doc''], Dir True)],
        log = [info ''Watching file system activity in /w'', info ''Directory added: /w'',
               info ''Directory added: /w/sub'', info ''File added: /w/sub/a.pdf'',
               info ''Created directory: /w/doc'', info ''Moved: /w/sub/a.pdf -> /w/doc/a.pdf''],
        root = ''/w'', existingFiles = [''/w/sub'']\<rparr> \<and>
   attach watcherOptions ''/w''
     [([''/''], Dir True), ([''/'', ''w''], Dir True), ([''/'', ''w'', ''sub''], Dir True),
      ([''/'', ''w'', ''sub'', ''a.pdf''], File 1)] [] =
   Inr \<lparr>fs = [([''/''], Dir True), ([''/'', ''w''], Dir True), ([''/'', ''w'', ''sub''], Dir True),
              ([''/'', ''w'', ''sub'', ''a.pdf''], File 1)],
        log = [info ''Watching file system activity in /w''],
        root = ''/w'', existingFiles = [''/w/sub'']\<rparr>"
  by code_simp

end
