(* ===== verification/Own_Moves.thy ===== *)
theory Own_Moves
  imports Watch_Controller
begin

text \<open>
  The watcher watches the whole tree below \<open>pathToWatch\<close>, its category folders
  included, so chokidar also reports the program's own changes: a move made by
  \<open>organizeFile\<close> comes back as \<open>unlink\<close> of the old path, \<open>addDir\<close> of a
  created folder and \<open>add\<close> (or \<open>change\<close>, when a file was replaced) of the new path.
  \<open>change_events\<close> lists what chokidar reports for a change of the tree below the
  watched root, each path built by \<open>path.join\<close> from the watched path down, as in its
  scan. These reports are handled again by the listeners; the theorem of this theory
  shows that they change nothing more, so filing a file does not set off a chain of moves.
\<close>

section \<open>Reports of a tree change\<close>

definition change_events :: "string \<Rightarrow> fsys \<Rightarrow> fsys \<Rightarrow> event list" where
  "change_events r tree tree' =
     (let rk = path_key r; pth = (\<lambda>k. foldl join r (drop (length rk) k)) in
      map (\<lambda>(k, n). if is_dir n then UnlinkDir (pth k) else Unlink (pth k))
        (filter (\<lambda>(k, n). strict_prefix rk k \<and>
                   (case map_of tree' k of None \<Rightarrow> True | Some n' \<Rightarrow> is_dir n' \<noteq> is_dir n)) tree) @
      map (\<lambda>(k, n). if is_dir n then AddDir (pth k) else Add (pth k))
        (filter (\<lambda>(k, n). strict_prefix rk k \<and>
                   (case map_of tree k of None \<Rightarrow> True | Some n0 \<Rightarrow> is_dir n0 \<noteq> is_dir n)) tree') @
      map (\<lambda>(k, n). Change (pth k))
        (filter (\<lambda>(k, n). strict_prefix rk k \<and>
                   (case (n, map_of tree k) of (File c, Some (File c')) \<Rightarrow> c \<noteq> c' | _ \<Rightarrow> False)) tree'))"

section \<open>Lemmas\<close>

lemma not_is_dir: "\<not> is_dir n \<longleftrightarrow> (\<exists>c. n = File c)"
  by (cases n) simp_all

lemma mem_map_filter_pairs:
  "e \<in> set (map (\<lambda>(k, n). g k n) (filter (\<lambda>(k, n). P k n) xs)) \<longleftrightarrow> (\<exists>k n. (k, n) \<in> set xs \<and> P k n \<and> e = g k n)"
  by auto

lemma change_events_cases:
  assumes "e \<in> set (change_events r tree tree')"
  obtains (removed) x where "e = Unlink x \<or> e = UnlinkDir x"
    | (dir_added) x where "e = AddDir x"
    | (file_written) k c where "(k, File c) \<in> set tree'" and "map_of tree k \<noteq> Some (File c)"
        and "e = Add (foldl join r (drop (length (path_key r)) k)) \<or>
             e = Change (foldl join r (drop (length (path_key r)) k))"
proof -
  let ?P = "\<lambda>k. foldl join r (drop (length (path_key r)) k)"
  from assms consider
      (old) k n where "e = (if is_dir n then UnlinkDir (?P k) else Unlink (?P k))"
    | (new) k n where "(k, n) \<in> set tree'"
        "case map_of tree k of None \<Rightarrow> True | Some n0 \<Rightarrow> is_dir n0 \<noteq> is_dir n"
        "e = (if is_dir n then AddDir (?P k) else Add (?P k))"
    | (changed) k n where "(k, n) \<in> set tree'"
        "case (n, map_of tree k) of (File c, Some (File c')) \<Rightarrow> c \<noteq> c' | _ \<Rightarrow> False"
        "e = Change (?P k)"
    unfolding change_events_def Let_def set_append Un_iff mem_map_filter_pairs by blast
  then show ?thesis
  proof cases
    case old
    then show ?thesis using removed by (cases "is_dir n") auto
  next
    case new
    show ?thesis
    proof (cases n)
      case (Dir w)
      with new dir_added show ?thesis by simp
    next
      case (File c)
      with new(2) have "map_of tree k \<noteq> Some (File c)" by (auto split: option.splits)
      with new File file_written show ?thesis by simp
    qed
  next
    case changed
    then obtain c where "n = File c" "map_of tree k \<noteq> Some (File c)"
      by (auto split: node.splits option.splits)
    with changed file_written show ?thesis by simp
  qed
qed

lemma run_fs_fixed:
  assumes "\<And>s e. fs s = tree \<Longrightarrow> root s = r \<Longrightarrow> e \<in> set es \<Longrightarrow>
             \<exists>s'. on_event s e = Inr s' \<and> fs s' = tree"
    and "fs s = tree" and "root s = r"
  shows "\<exists>s'. run s es = Inr s' \<and> fs s' = tree"
  using assms
proof (induction es arbitrary: s)
  case Nil
  then show ?case by simp
next
  case (Cons e es)
  from Cons.prems obtain s1 where e: "on_event s e = Inr s1" and t: "fs s1 = tree" by force
  have "root s1 = r" using on_event_config [OF e] Cons.prems(3) by simp
  with Cons.IH [of s1] Cons.prems(1) t e show ?case by simp
qed

lemma refile_event_fixed:
  assumes wf: "fs_wf (fs s)" and root: "root s \<noteq> []"
    and cls: "getFolderNameBasedOnExtension (drop 1 (extname p)) = Some f"
    and at: "map_of (fs s) (path_key (root s) @ [f, basename p]) = Some (File c)"
    and e: "e = Add (join (join (root s) f) (basename p)) \<or> e = Change (join (join (root s) f) (basename p))"
  shows "\<exists>s'. on_event s e = Inr s' \<and> fs s' = fs s"
proof -
  let ?q = "join (join (root s) f) (basename p)"
  note dp = destination_paths [OF root cls]
  have q: "getFolderNameBasedOnExtension (drop 1 (extname ?q)) = Some f"
    "path_key ?q = path_key (root s) @ [f, basename ?q]"
    using dp by simp_all
  have pres: "map_of (fs s) (path_key ?q) = Some (File c)" using dp at by simp
  have "\<exists>st'. organizeFile (root s) ?q (s\<lparr>log := l\<rparr>) = Inr st' \<and> fs st' = fs s" for l
  proof -
    have "fs_wf (fs (s\<lparr>log := l\<rparr>))" "map_of (fs (s\<lparr>log := l\<rparr>)) (path_key ?q) = Some (File c)"
      using wf pres by simp_all
    from organizeFile_in_folder [OF this(1) root q(1) q(2) this(2)] show ?thesis by simp
  qed
  with e show ?thesis by (auto simp: listener_defs)
qed

lemma change_events_same:
  assumes "distinct (map fst tree)"
  shows "change_events r tree tree = []"
proof -
  have m: "map_of tree k = Some n" if "(k, n) \<in> set tree" for k n using assms that by simp
  show ?thesis
    unfolding change_events_def Let_def by (auto simp: filter_empty_conv m split: node.splits) (metis node.exhaust)
qed

lemma passive_event_fixed:
  "e = Unlink x \<or> e = UnlinkDir x \<or> e = AddDir x \<Longrightarrow> \<exists>s'. on_event s e = Inr s' \<and> fs s' = fs s"
  by (auto simp: listener_defs)

section \<open>Properties\<close>

text \<open>
  C28. The program's own move does not set off further moves: when \<open>organizeFile\<close>
  files a file, chokidar's reports of that change (\<open>unlink\<close> of the old path,
  \<open>addDir\<close> of a created folder, \<open>add\<close> or \<open>change\<close> of the new path), delivered in any
  order, any number of times, and each possibly dropped, are handled by the listeners
  without any change to the file tree; only log lines are added.
\<close>

theorem own_move_reports_change_nothing:
  assumes wf: "fs_wf (fs st)" and root: "root st \<noteq> []"
    and rd: "map_of (fs st) (path_key (root st)) = Some (Dir True)"
    and cls: "getFolderNameBasedOnExtension (drop 1 (extname p)) = Some f"
    and src: "map_of (fs st) (path_key p) = Some (File c)"
    and sw: "writable_dir (fs st) (butlast (path_key p))"
    and tgt: "map_of (fs st) (path_key (root st) @ [f]) \<in> {None, Some (Dir True)}"
    and dst: "map_of (fs st) (path_key (root st) @ [f, basename p]) = None \<or>
              (\<exists>c'. map_of (fs st) (path_key (root st) @ [f, basename p]) = Some (File c'))"
    and mv: "organizeFile (root st) p st = Inr st1"
    and es: "set es \<subseteq> set (change_events (root st) (fs st) (fs st1))"
  shows "\<exists>st2. run st1 es = Inr st2 \<and> fs st2 = fs st1"
proof -
  let ?r = "root st" let ?dk = "path_key (root st) @ [f, basename p]"
  have r1: "root st1 = root st" using organizeFile_more [OF mv] by (rule watcher_more_eq [THEN conjunct1])
  show ?thesis
  proof (cases "path_key p = ?dk")
    case True
    from organizeFile_in_folder [OF wf root cls True src] mv have "fs st1 = fs st" by auto
    with es wf have "es = []" by (simp add: change_events_same fs_wf_def)
    then show ?thesis by simp
  next
    case sd: False
    from organizeFile_move_file [OF wf root rd cls src sw tgt dst sd] mv
    have wf1: "fs_wf (fs st1)" and m1: "map_of (fs st1) = (map_of (fs st))(path_key ?r @ [f] \<mapsto> Dir True,
        path_key p := None, ?dk \<mapsto> File c)" by auto
    have fixed: "\<exists>s'. on_event s e = Inr s' \<and> fs s' = fs st1"
      if s: "fs s = fs st1" "root s = ?r" and e: "e \<in> set es" for s e
    proof -
      from e es have "e \<in> set (change_events ?r (fs st) (fs st1))" by blast
      then show ?thesis
      proof (cases rule: change_events_cases)
        case (removed x)
        then show ?thesis using passive_event_fixed [of e x s] s by auto
      next
        case (dir_added x)
        then show ?thesis using passive_event_fixed [of e x s] s by auto
      next
        case (file_written k c0)
        have "distinct (map fst (fs st1))" using wf1 by (simp add: fs_wf_def)
        with file_written(1) have "map_of (fs st1) k = Some (File c0)" by simp
        with file_written(2) m1 have k: "k = ?dk" and "c0 = c" by (auto split: if_splits)
        have "map_of (fs s) (path_key (root s) @ [f, basename p]) = Some (File c)"
          using s m1 by simp
        moreover have "e = Add (join (join (root s) f) (basename p)) \<or> e = Change (join (join (root s) f) (basename p))"
          using file_written(3) k s by simp
        ultimately have "\<exists>s'. on_event s e = Inr s' \<and> fs s' = fs s"
          using refile_event_fixed [of s p f c e] wf1 root s cls by simp
        with s show ?thesis by simp
      qed
    qed
    show ?thesis by (rule run_fs_fixed [OF fixed _ r1]) simp_all
  qed
qed

theorem own_move_reports_change_nothing_witness:
  "\<exists>st2. run \<lparr>fs = [([''/''], Dir True), ([''/'', ''w''], Dir True), ([''/'', ''w'', ''doc'', ''report.PDF''], File 1),
                    ([''/'', ''w'', ''doc''], Dir True)],
              log = [info ''Created directory: /w/doc'', info ''Moved: /w/report.PDF -> /w/doc/report.PDF''],
              root = ''/w'', existingFiles = []\<rparr>
             [Add ''/w/doc/report.PDF'', Unlink ''/w/report.PDF'', AddDir ''/w/doc'', Add ''/w/doc/report.PDF''] = Inr st2 \<and>
         fs st2 = [([''/''], Dir True), ([''/'', ''w''], Dir True), ([''/'', ''w'', ''doc'', ''report.PDF''], File 1),
                   ([''/'', ''w'', ''doc''], Dir True)]"
proof -
  let ?st = "\<lparr>fs = [([''/''], Dir True), ([''/'', ''w''], Dir True), ([''/'', ''w'', ''report.PDF''], File 1)],
              log = [], root = ''/w'', existingFiles = []\<rparr>"
  let ?st1 = "\<lparr>fs = [([''/''], Dir True), ([''/'', ''w''], Dir True), ([''/'', ''w'', ''doc'', ''report.PDF''], File 1),
                    ([''/'', ''w'', ''doc''], Dir True)],
              log = [info ''Created directory: /w/doc'', info ''Moved: /w/report.PDF -> /w/doc/report.PDF''],
              root = ''/w'', existingFiles = []\<rparr>"
  have wf: "fs_wf (fs ?st)" by code_simp
  have rk: "path_key ''/w'' = [''/'', ''w'']" by code_simp
  have pk: "path_key ''/w/report.PDF'' = [''/'', ''w'', ''report.PDF'']" by code_simp
  have bn: "basename ''/w/report.PDF'' = ''report.PDF''" by code_simp
  have cls: "getFolderNameBasedOnExtension (drop 1 (extname ''/w/report.PDF'')) = Some ''doc''" by code_simp
  have mv: "organizeFile (root ?st) ''/w/report.PDF'' ?st = Inr ?st1" by code_simp
  have ce: "change_events (root ?st) (fs ?st) (fs ?st1) =
      [Unlink ''/w/report.PDF'', Add ''/w/doc/report.PDF'', AddDir ''/w/doc'']" by code_simp
  have "\<exists>st2. run ?st1 [Add ''/w/doc/report.PDF'', Unlink ''/w/report.PDF'', AddDir ''/w/doc'', Add ''/w/doc/report.PDF''] =
      Inr st2 \<and> fs st2 = fs ?st1"
  proof (rule own_move_reports_change_nothing [where st = ?st and p = "''/w/report.PDF''" and f = "''doc''" and c = 1])
    show "fs_wf (fs ?st)" by (rule wf)
    show "map_of (fs ?st) (path_key (root ?st)) = Some (Dir True)" by (simp add: rk)
    show "map_of (fs ?st) (path_key ''/w/report.PDF'') = Some (File 1)" by (simp add: pk)
    show "writable_dir (fs ?st) (butlast (path_key ''/w/report.PDF''))" by (simp add: pk writable_dir_def)
    show "map_of (fs ?st) (path_key (root ?st) @ [''doc'']) \<in> {None, Some (Dir True)}" by (simp add: rk)
    show "map_of (fs ?st) (path_key (root ?st) @ [''doc'', basename ''/w/report.PDF'']) = None \<or>
          (\<exists>c'. map_of (fs ?st) (path_key (root ?st) @ [''doc'', basename ''/w/report.PDF'']) = Some (File c'))"
      by (simp add: rk bn)
    show "set [Add ''/w/doc/report.PDF'', Unlink ''/w/report.PDF'', AddDir ''/w/doc'', Add ''/w/doc/report.PDF'']
          \<subseteq> set (change_events (root ?st) (fs ?st) (fs ?st1))" unfolding ce by simp
  qed (use cls mv in simp_all)
  then show ?thesis by simp
qed

end
