(* ===== verification/Spec2Isabelle.thy ===== *)
theory Spec2Isabelle
  imports Console Watch_Progress Chokidar Initial_Scan Own_Moves
begin

text \<open>
  \<^bold>\<open>FileOrginzer: a verification development of \<open>src/index.js\<close>.\<close>

  The program (117 lines of Node.js) watches one directory with the chokidar library and
  moves every new or changed file whose extension it knows into a sub-folder named after
  the file's category (\<open>image\<close>, \<open>doc\<close>, \<open>video\<close>, \<open>audio\<close>). Its parts, leaf to root,
  and the theory that models each:

  \<^item> \<open>Prelude\<close>: rule collections, the type of file-system keys, generic lemmas on
    association lists and on sums used as exceptions.
  \<^item> \<open>Node_Lib\<close>: the parts of Node's \<open>path\<close> module the program calls (\<open>join\<close>,
    \<open>basename\<close>, \<open>extname\<close>, with \<open>normalize\<close> as \<open>path_normalize\<close>) in their POSIX form,
    and \<open>String.prototype.toLowerCase\<close> on 8-bit characters. Modelled from Node's
    documented behaviour; lemmas: normalisation yields normal segments, the key of
    \<open>join a b\<close> for a plain name \<open>b\<close>, the base name of a path with an extension is plain.
  \<^item> \<open>Classifier\<close>: \<open>getFolderNameBasedOnExtension\<close> (lines 18--35) with its four
    extension lists; the specification's \<open>Category\<close> and extension table, and the proof
    that the code refines the table, ignores case and files each documented extension.
  \<^item> \<open>File_System\<close>: the \<open>fs\<close> primitives the program calls (\<open>existsSync\<close>,
    \<open>mkdirSync\<close> with \<open>recursive: true\<close>, \<open>renameSync\<close>, \<open>readdirSync\<close>) and
    \<open>writeFileSync\<close> for other programs, over a tree stored as an association list from
    normalised keys to nodes (files with contents, directories with a write permission).
    Errors are the POSIX codes as values of \<open>fs_error\<close>. Invariant \<open>fs_wf\<close> (unique keys,
    every entry in a directory) and its preservation by each primitive.
  \<^item> \<open>File_Contents\<close>: the multiset of file contents of a tree, kept by \<open>mkdirSync\<close>
    and by a rename except for the entry the rename replaces.
  \<^item> \<open>Directory_Ensurer\<close>: \<open>createDirectoryIfNeeded\<close> (lines 10--15) on the handler
    state \<open>io_state\<close> (file system and console log; a log line records its stream and
    whether it carries the timestamp; the printed form is in \<open>Console\<close>). It is
    idempotent and only adds directories.
  \<^item> \<open>Mover\<close>: \<open>organizeFile\<close> (lines 38--66). Classified files are filed; unclassified
    ones stay (no \<open>others\<close> folder, whatever the comments at lines 33 and 52 say); a
    file already in its folder is renamed onto itself; a failed rename is logged; a failed \<open>mkdirSync\<close> is not caught; a file
    already at the destination is replaced, and that is the only way contents are lost.
  \<^item> \<open>Event_Deduper\<close>: \<open>getExistingFiles\<close> (lines 69--76), the listing taken at start.
  \<^item> \<open>Watch_Controller\<close>: the watcher state (handler state, watched root, pre-existing
    files), the \<open>watch\<close> options (lines 82--90), one definition per listener (lines
    94--116), \<open>run\<close> over an event sequence (Node handles events one at a time and an
    uncaught exception ends the process, the \<open>Inl\<close> result), \<open>startup\<close> (line 79, with
    \<open>watching_line\<close> of line 118) and \<open>main\<close>. Only \<open>mkdirSync\<close> errors escape a listener.
  \<^item> \<open>Watch_Progress\<close>: properties of whole event streams. Under \<open>watch_ok\<close> (well-formed
    tree, writable root, no category folder taken by a file) no listener throws, so
    \<open>run\<close> handles every event and keeps \<open>watch_ok\<close>; a run appends at most three log
    lines per event.
  \<^item> \<open>Timestamp\<close>: \<open>format(new Date(), 'yyyy-MM-dd HH:mm:ss')\<close> of \<open>date-fns\<close>, modelled
    from that library: decimal digits and the \<open>while\<close> loop of \<open>addLeadingZeros\<close>, a
    \<open>function\<close> whose termination is proved by the measure
    \<open>targetLength - length output\<close>; a valid date prints 19 characters and reads back.
  \<^item> \<open>Console\<close>: the line printed for a log entry at a given time, and the
    specification's reader of \<open>[YYYY-MM-DD HH:MM:SS] <message>\<close>: stamped lines read
    back; in every reachable state every line is stamped except the start-up listing
    error that \<open>getExistingFiles\<close> logs, which the reader rejects.
  \<^item> \<open>Environment\<close>: the harness that interleaves writes by other programs with the
    events chokidar emits (\<open>world_run\<close>, the inductive \<open>reachable\<close>; neither models a
    line of the program). Invariant by rule induction on \<open>reachable\<close>: the root and the
    start-up listing never change and the log only grows.
  \<^item> \<open>Chokidar\<close>: chokidar's \<open>awaitWriteFinish\<close> (\<open>awf_poll\<close>, a
    \<open>partial_function (option)\<close> over the times of other programs' writes, and its start
    \<open>awaitWriteFinish\<close>), modelled from the library: every reported event on the waiting
    path resets the last-change time to its time, a poll every \<open>pollInterval\<close> ms resets
    it when the size differs from the previous poll, and the event is emitted once
    \<open>stabilityThreshold\<close> ms have passed. Partial correctness by \<open>raw_induct\<close> over
    \<open>awf_inv\<close>; termination by the measure \<open>last write + pollInterval + stabilityThreshold
    - now\<close> when \<open>pollInterval > 0\<close>. With the program's options (lines 86--89) the event
    comes 2000 to 2200 ms after the last write.
  \<^item> \<open>Initial_Scan\<close>: chokidar's initial scan (\<open>addDir\<close> for the root and every
    directory below it, \<open>add\<close> for every file, paths built by \<open>path.join\<close>), which
    \<open>ignoreInitial\<close> (line 85) suppresses, and \<open>attach\<close>: start-up listing, scan and
    events in the order of lines 78--85 (\<open>main\<close> is \<open>attach\<close> with the program's
    options). For any options the scan moves no file of a flat tree; it would move a
    file of a sub-directory, which the start-up listing does not cover.
  \<^item> \<open>Own_Moves\<close>: what chokidar reports for a change of the watched tree
    (\<open>change_events\<close>: \<open>unlink\<close>/\<open>unlinkDir\<close> of removed entries, \<open>add\<close>/\<open>addDir\<close>
    of new ones, \<open>change\<close> of rewritten files). The watch is recursive, so the
    program's own move comes back to it; the reports of a move, in any order and
    multiplicity, leave the tree unchanged (the moved file is renamed onto itself).
  \<^item> This theory: the properties that span the components (a new file filed end to
    end; a pre-existing file ignored on \<open>add\<close> and filed on \<open>change\<close>).

  All definitions are executable; there are no loops in the program itself. The recursive
  functions of the model (path segments, \<open>mkdir -p\<close>, event sequences, decimal digits)
  recurse structurally or on \<open>n div 10\<close>, and the library loop \<open>addLeadingZeros\<close>
  has a termination proof, so no fuel is needed. The loop that need not end, the
  \<open>awaitWriteFinish\<close> poll (it never ends with \<open>pollInterval = 0\<close>), is a
  \<open>partial_function (option)\<close>, and that it returns is proved as such: for every finite
  list of writes when \<open>pollInterval > 0\<close>, within 2200 ms of the last write with the
  program's options. The event loop itself is \<open>run\<close> over finite event sequences
  (\<open>persistent: true\<close> only keeps the process alive). The watched root is a parameter of the handlers; the
  program's constant \<open>pathToWatch\<close> is a Windows path, which under the POSIX model is a
  relative path, so the theorems are stated for any root and the witnesses use \<open>/w\<close>.

  Not modelled: chokidar's internals other than the \<open>awaitWriteFinish\<close> poll and the
  initial scan (the native \<open>fs.watch\<close> back ends: the event stream is what chokidar
  emits; the order in which the scan visits entries: it reports the tree in stored order);
  a file's size is the number of writes it has received, each write changing it and
  each reported by the native watcher at its time;
  the clock (\<open>new Date()\<close> is not part of the state: a line is printed at a time
  given to \<open>render_line\<close>, and the log records only whether a line is stamped); the
  formatting of error objects by
  \<open>console.error\<close> (the model prints the error code); Windows path semantics; symbolic
  links and permissions other than a directory's write bit.
\<close>

section \<open>Lemmas across components\<close>

text \<open>The state after a user wrote a new file into the watched directory.\<close>

lemma write_new_file:
  assumes root: "d \<noteq> []" and rd: "map_of fs0 (path_key d) = Some (Dir True)"
    and n: "plain_segment n" and new: "map_of fs0 (path_key d @ [n]) = None"
  shows "writeFileSync fs0 (join d n) c = Inr (AList.update (path_key d @ [n]) (File c) fs0)"
  using assms by (auto simp: writeFileSync_def Let_def path_key_join is_root_key_def plain_segment_def)

text \<open>\<open>organizeFile\<close> on a file that lies directly in the watched directory.\<close>

lemma organize_root_file:
  assumes wf: "fs_wf (fs st)" and root: "d \<noteq> []"
    and rd: "map_of (fs st) (path_key d) = Some (Dir True)" and n: "plain_segment n"
    and cls: "getFolderNameBasedOnExtension (drop 1 (extname (join d n))) = Some f"
    and src: "map_of (fs st) (path_key d @ [n]) = Some (File c)"
    and tgt: "map_of (fs st) (path_key d @ [f]) \<in> {None, Some (Dir True)}"
    and free: "map_of (fs st) (path_key d @ [f, n]) = None"
  shows "\<exists>st'. organizeFile d (join d n) st = Inr st' \<and>
           map_of (fs st') (path_key d @ [f, n]) = Some (File c) \<and>
           map_of (fs st') (path_key d @ [n]) = None \<and>
           map_of (fs st') (path_key d @ [f]) = Some (Dir True)"
proof -
  let ?p = "join d n" and ?rk = "path_key d"
  note paths = classified_paths [OF root cls]
  have pk: "path_key ?p = ?rk @ [n]" using root n by (simp add: path_key_join)
  have bn: "basename ?p = n" using paths(6) pk by auto
  have fn: "f \<noteq> n" using paths(7) bn by simp
  have "\<exists>st'. organizeFile d ?p st = Inr st' \<and> fs_wf (fs st') \<and>
         map_of (fs st') = (map_of (fs st))(?rk @ [f] \<mapsto> Dir True, path_key ?p := None,
                                            ?rk @ [f, basename ?p] \<mapsto> File c) \<and>
         log st' = log st @ (if map_of (fs st) (?rk @ [f]) = None
                             then [info (''Created directory: '' @ join d f)] else []) @
                   [info (''Moved: '' @ ?p @ '' -> '' @ join (join d f) (basename ?p))] \<and>
         io_state.more st' = io_state.more st"
  proof (rule organizeFile_move_file [OF wf root rd cls])
    show "map_of (fs st) (path_key ?p) = Some (File c)" using src by (simp add: pk)
    show "writable_dir (fs st) (butlast (path_key ?p))" using rd by (simp add: pk writable_dir_def)
    show "map_of (fs st) (?rk @ [f]) \<in> {None, Some (Dir True)}" by (rule tgt)
    show "map_of (fs st) (?rk @ [f, basename ?p]) = None \<or>
          (\<exists>c'. map_of (fs st) (?rk @ [f, basename ?p]) = Some (File c'))"
      using free by (simp add: bn)
    show "path_key ?p \<noteq> ?rk @ [f, basename ?p]" by (simp add: pk)
  qed
  then show ?thesis using bn pk fn by auto
qed

section \<open>Properties\<close>

text \<open>
  C2. A new file is filed end to end: from the state after start-up on a writable watched
  directory, a user writing a file with a classified extension (\<open>report.PDF\<close>, say) into
  it, and chokidar reporting the \<open>add\<close>, leave the file at \<open>root/folder/name\<close> with its
  contents, nothing at the old path, and the folder a directory (created if it was absent).
\<close>

theorem new_file_filed_end_to_end:
  assumes wf: "fs_wf fs0" and root: "d \<noteq> []"
    and rd: "map_of fs0 (path_key d) = Some (Dir True)"
    and names: "\<forall>m \<in> set (children fs0 (path_key d)). plain_segment m"
    and n: "plain_segment n"
    and cls: "getFolderNameBasedOnExtension (drop 1 (extname (join d n))) = Some f"
    and new: "map_of fs0 (path_key d @ [n]) = None"
    and tgt: "map_of fs0 (path_key d @ [f]) \<in> {None, Some (Dir True)}"
    and free: "map_of fs0 (path_key d @ [f, n]) = None"
    and vis: "\<not> ignored (join d n)"
  shows "\<exists>st. world_run (startup d fs0) [Write (join d n) c, Emit (Add (join d n))] = Inr st \<and>
           map_of (fs st) (path_key d @ [f, n]) = Some (File c) \<and>
           map_of (fs st) (path_key d @ [n]) = None \<and>
           map_of (fs st) (path_key d @ [f]) = Some (Dir True)"
proof -
  let ?p = "join d n" and ?rk = "path_key d"
  let ?fs1 = "AList.update (?rk @ [n]) (File c) fs0"
  let ?st0 = "startup d fs0"
  let ?st1 = "?st0\<lparr>fs := ?fs1\<rparr>"
  let ?st2 = "?st1\<lparr>log := log ?st1 @ [info (''File added: '' @ ?p)]\<rparr>"
  have m1: "map_of ?fs1 = (map_of fs0)(?rk @ [n] \<mapsto> File c)" by (simp add: update_conv')
  have st0: "?st0 = \<lparr>fs = fs0, log = [info (''Watching file system activity in '' @ d)], root = d,
                      existingFiles = map (join d) (children fs0 ?rk)\<rparr>"
    using rd by (rule startup_readable)
  have fresh: "?p \<notin> set (existingFiles ?st2)"
    using startup_fresh_name [OF root names n new] by (simp add: st0)
  have wr: "writeFileSync fs0 ?p c = Inr ?fs1" using root rd n new by (rule write_new_file)
  have fn: "f \<noteq> n" using classified_paths(7) [OF root cls] classified_paths(6) [OF root cls]
    root n by (auto simp: path_key_join)
  obtain st' where org: "organizeFile d ?p ?st2 = Inr st'"
    and res: "map_of (fs st') (?rk @ [f, n]) = Some (File c) \<and> map_of (fs st') (?rk @ [n]) = None \<and>
              map_of (fs st') (?rk @ [f]) = Some (Dir True)"
    using organize_root_file [of ?st2 d n f c] writeFileSync_wf [OF wf wr] root rd n cls tgt free fn
    by (auto simp: m1)
  have "onAdd ?st1 ?p = organizeFile d ?p ?st2" using fresh by (simp add: onAdd_def st0)
  then have "world_run ?st1 [Emit (Add ?p)] = Inr st'"
    using org delivered_visible [OF vis] by simp
  moreover have "fs ?st0 = fs0" by (simp add: st0)
  ultimately have "world_run ?st0 [Write ?p c, Emit (Add ?p)] = Inr st'" using wr by simp
  with res show ?thesis by blast
qed

theorem new_file_filed_end_to_end_witness:
  "\<exists>st. world_run (startup ''/w'' [([''/''], Dir True), ([''/'', ''w''], Dir True),
                                  ([''/'', ''w'', ''old.txt''], File 3)])
          [Write ''/w/report.PDF'' 7, Emit (Add ''/w/report.PDF'')] = Inr st \<and>
        map_of (fs st) [''/'', ''w'', ''doc'', ''report.PDF''] = Some (File 7) \<and>
        map_of (fs st) [''/'', ''w'', ''report.PDF''] = None \<and>
        map_of (fs st) [''/'', ''w'', ''doc''] = Some (Dir True)"
proof -
  let ?fs0 = "[([''/''], Dir True), ([''/'', ''w''], Dir True), ([''/'', ''w'', ''old.txt''], File 3)]"
  have wf: "fs_wf ?fs0" by code_simp
  have rk: "path_key ''/w'' = [''/'', ''w'']" by code_simp
  have j: "join ''/w'' ''report.PDF'' = ''/w/report.PDF''" by code_simp
  have rd: "map_of ?fs0 (path_key ''/w'') = Some (Dir True)" by (simp add: rk)
  have names: "\<forall>m \<in> set (children ?fs0 (path_key ''/w'')). plain_segment m"
    by (simp add: rk children_def is_root_key_def plain_segment_def)
  have n: "plain_segment ''report.PDF''" by (simp add: plain_segment_def)
  have cls: "getFolderNameBasedOnExtension (drop 1 (extname (join ''/w'' ''report.PDF''))) = Some ''doc''"
    by code_simp
  have new: "map_of ?fs0 (path_key ''/w'' @ [''report.PDF'']) = None" by (simp add: rk)
  have tgt: "map_of ?fs0 (path_key ''/w'' @ [''doc'']) \<in> {None, Some (Dir True)}" by (simp add: rk)
  have free: "map_of ?fs0 (path_key ''/w'' @ [''doc'', ''report.PDF'']) = None" by (simp add: rk)
  have vis: "\<not> ignored (join ''/w'' ''report.PDF'')" by code_simp
  from new_file_filed_end_to_end [OF wf _ rd names n cls new tgt free vis, of 7]
  show ?thesis by (simp add: rk j)
qed

text \<open>
  C5. A file present at start-up is not organised when chokidar reports it as added, but
  it is when it is later changed: the \<open>add\<close> leaves the state after start-up as it is,
  and a following \<open>change\<close> moves the file into its folder.
\<close>

theorem preexisting_file_add_ignored_change_moved:
  assumes wf: "fs_wf fs0" and root: "d \<noteq> []"
    and rd: "map_of fs0 (path_key d) = Some (Dir True)"
    and n: "plain_segment n"
    and cls: "getFolderNameBasedOnExtension (drop 1 (extname (join d n))) = Some f"
    and old: "map_of fs0 (path_key d @ [n]) = Some (File c)"
    and tgt: "map_of fs0 (path_key d @ [f]) \<in> {None, Some (Dir True)}"
    and free: "map_of fs0 (path_key d @ [f, n]) = None"
    and vis: "\<not> ignored (join d n)"
  shows "world_run (startup d fs0) [Emit (Add (join d n))] = Inr (startup d fs0) \<and>
         (\<exists>st. world_run (startup d fs0) [Emit (Add (join d n)), Emit (Change (join d n))] = Inr st \<and>
               map_of (fs st) (path_key d @ [f, n]) = Some (File c) \<and>
               map_of (fs st) (path_key d @ [n]) = None)"
proof -
  let ?p = "join d n" and ?rk = "path_key d" and ?st0 = "startup d fs0"
  let ?st1 = "?st0\<lparr>log := log ?st0 @ [info (''File changed: '' @ ?p)]\<rparr>"
  have st0: "?st0 = \<lparr>fs = fs0, log = [info (''Watching file system activity in '' @ d)], root = d,
                      existingFiles = map (join d) (children fs0 ?rk)\<rparr>"
    using rd by (rule startup_readable)
  have "\<not> is_root_key (?rk @ [n])" using n by (auto simp: is_root_key_def plain_segment_def)
  with old have "n \<in> set (children fs0 ?rk)" by (intro children_member) auto
  then have known: "?p \<in> set (existingFiles ?st0)" by (simp add: st0)
  then have add: "world_run ?st0 [Emit (Add ?p)] = Inr ?st0"
    using delivered_visible [OF vis] by (simp add: onAdd_def)
  obtain st' where org: "organizeFile d ?p ?st1 = Inr st'"
    and res: "map_of (fs st') (?rk @ [f, n]) = Some (File c) \<and> map_of (fs st') (?rk @ [n]) = None"
    using organize_root_file [of ?st1 d n f c] wf root rd n cls old tgt free by (auto simp: st0)
  have "world_run ?st0 [Emit (Add ?p), Emit (Change ?p)] = Inr st'"
    using known org delivered_visible [OF vis] by (simp add: onAdd_def onChange_def st0)
  with add res show ?thesis by blast
qed

theorem preexisting_file_add_ignored_change_moved_witness:
  "world_run (startup ''/w'' [([''/''], Dir True), ([''/'', ''w''], Dir True), ([''/'', ''w'', ''clip.mp4''], File 5)])
     [Emit (Add ''/w/clip.mp4'')] =
   Inr (startup ''/w'' [([''/''], Dir True), ([''/'', ''w''], Dir True), ([''/'', ''w'', ''clip.mp4''], File 5)]) \<and>
   (\<exists>st. world_run (startup ''/w'' [([''/''], Dir True), ([''/'', ''w''], Dir True),
                                    ([''/'', ''w'', ''clip.mp4''], File 5)])
           [Emit (Add ''/w/clip.mp4''), Emit (Change ''/w/clip.mp4'')] = Inr st \<and>
         map_of (fs st) [''/'', ''w'', ''video'', ''clip.mp4''] = Some (File 5) \<and>
         map_of (fs st) [''/'', ''w'', ''clip.mp4''] = None)"
proof -
  let ?fs0 = "[([''/''], Dir True), ([''/'', ''w''], Dir True), ([''/'', ''w'', ''clip.mp4''], File 5)]"
  have wf: "fs_wf ?fs0" by code_simp
  have rk: "path_key ''/w'' = [''/'', ''w'']" by code_simp
  have j: "join ''/w'' ''clip.mp4'' = ''/w/clip.mp4''" by code_simp
  have rd: "map_of ?fs0 (path_key ''/w'') = Some (Dir True)" by (simp add: rk)
  have n: "plain_segment ''clip.mp4''" by (simp add: plain_segment_def)
  have cls: "getFolderNameBasedOnExtension (drop 1 (extname (join ''/w'' ''clip.mp4''))) = Some ''video''"
    by code_simp
  have old: "map_of ?fs0 (path_key ''/w'' @ [''clip.mp4'']) = Some (File 5)" by (simp add: rk)
  have tgt: "map_of ?fs0 (path_key ''/w'' @ [''video'']) \<in> {None, Some (Dir True)}" by (simp add: rk)
  have free: "map_of ?fs0 (path_key ''/w'' @ [''video'', ''clip.mp4'']) = None" by (simp add: rk)
  have vis: "\<not> ignored (join ''/w'' ''clip.mp4'')" by code_simp
  from preexisting_file_add_ignored_change_moved [OF wf _ rd n cls old tgt free vis]
  show ?thesis by (simp add: rk j)
qed

end
